theory Spec2Isabelle
  imports Main "HOL-Library.Word"
begin

section \<open>Wire protocol (internal/protocol/messages.go)\<close>

text \<open>
  Go's \<^verbatim>\<open>[]byte\<close> and \<^verbatim>\<open>string\<close> are byte sequences. A \<^verbatim>\<open>float64\<close> is kept as
  its 64-bit pattern: the program only stores and copies coordinates in the parts
  modelled here, it never computes with them.
\<close>

type_synonym bytes = string
type_synonym float64 = "64 word"
type_synonym MessageType = string

definition MsgWelcome :: MessageType where "MsgWelcome = ''welcome''"
definition MsgJoin :: MessageType where "MsgJoin = ''join''"
definition MsgLeave :: MessageType where "MsgLeave = ''leave''"
definition MsgPosition :: MessageType where "MsgPosition = ''position''"
definition MsgState :: MessageType where "MsgState = ''state''"

record Envelope =
  Type :: MessageType
  Data :: bytes

record Color =
  R :: "8 word"
  G :: "8 word"
  B :: "8 word"

text \<open>
  The payload structs. Field names are those of the source, prefixed where two structs
  share a name (\<open>w_\<close> WelcomeData, \<open>j_\<close> JoinData, \<open>l_\<close> LeaveData, \<open>p_\<close> PositionData,
  \<open>pi_\<close> PlayerInfo, \<open>s_\<close> StateData).
\<close>

record WelcomeData =
  w_ID :: string
  w_Color :: Color

record JoinData =
  j_ID :: string
  j_X :: float64
  j_Y :: float64
  j_Color :: Color

record LeaveData =
  l_ID :: string

record PositionData =
  p_X :: float64
  p_Y :: float64

record PlayerInfo =
  pi_ID :: string
  pi_X :: float64
  pi_Y :: float64
  pi_Color :: Color

record StateData =
  s_Players :: "PlayerInfo list"

text \<open>The values passed as \<^verbatim>\<open>data interface{}\<close> to \<^verbatim>\<open>Marshal\<close>.\<close>

datatype payload =
  PWelcome WelcomeData
  | PJoin JoinData
  | PLeave LeaveData
  | PPosition PositionData
  | PState StateData

datatype error =
  EncodeError
  | DecodeError
  | SendOnClosedChannel
  | CloseOfClosedChannel
  | SendBlocks

text \<open>
  \<^verbatim>\<open>encoding/json\<close> is not part of the repository. Its entry points, at the types the
  program uses them at, are parameters of the model: every function below that
  serialises or parses takes the library as an argument and is verified for all
  libraries.
\<close>

record json =
  json_Marshal :: "payload \<Rightarrow> error + bytes"
  json_Marshal_Envelope :: "Envelope \<Rightarrow> error + bytes"
  json_Unmarshal_Envelope :: "bytes \<Rightarrow> error + Envelope"
  json_Unmarshal_Welcome :: "bytes \<Rightarrow> error + WelcomeData"
  json_Unmarshal_Join :: "bytes \<Rightarrow> error + JoinData"
  json_Unmarshal_Leave :: "bytes \<Rightarrow> error + LeaveData"
  json_Unmarshal_State :: "bytes \<Rightarrow> error + StateData"

text \<open>
  \<^verbatim>\<open>
  func Marshal(msgType MessageType, data interface{}) ([]byte, error) {
      raw, err := json.Marshal(data)
      if err != nil { return nil, err }
      return json.Marshal(Envelope{Type: msgType, Data: raw})
  }
  func Unmarshal(b []byte) (Envelope, error) {
      var env Envelope
      err := json.Unmarshal(b, &env)
      return env, err
  }
  \<close>
\<close>

definition Marshal :: "json \<Rightarrow> MessageType \<Rightarrow> payload \<Rightarrow> error + bytes" where
  "Marshal J msgType data =
     (case json_Marshal J data of
        Inl err \<Rightarrow> Inl err
      | Inr raw \<Rightarrow> json_Marshal_Envelope J \<lparr>Type = msgType, Data = raw\<rparr>)"

definition Unmarshal :: "json \<Rightarrow> bytes \<Rightarrow> error + Envelope" where
  "Unmarshal J b = json_Unmarshal_Envelope J b"

section \<open>Shared state store (internal/server/hub.go, GameState)\<close>

record PlayerState =
  X :: float64
  Y :: float64
  Color :: Color

text \<open>
  \<^verbatim>\<open>Players map[string]*PlayerState\<close>. Every entry is a struct freshly allocated by
  \<^verbatim>\<open>AddPlayer\<close> and reachable through its own key only, so the map is kept by value.
  The mutex serialises the operations; each is one atomic transition here.
  \<^verbatim>\<open>
  func (gs *GameState) AddPlayer(id string, x, y float64, c protocol.Color) {
      gs.Players[id] = &PlayerState{X: x, Y: y, Color: c}
  }
  func (gs *GameState) RemovePlayer(id string) { delete(gs.Players, id) }
  func (gs *GameState) UpdatePosition(id string, x, y float64) {
      if p, ok := gs.Players[id]; ok { p.X = x; p.Y = y }
  }
  \<close>
\<close>

record GameState =
  Players :: "string \<rightharpoonup> PlayerState"

definition NewGameState :: GameState where
  "NewGameState = \<lparr>Players = Map.empty\<rparr>"

definition AddPlayer :: "string \<Rightarrow> float64 \<Rightarrow> float64 \<Rightarrow> Color \<Rightarrow> GameState \<Rightarrow> GameState" where
  "AddPlayer ident x y c gs = gs\<lparr>Players := (Players gs)(ident \<mapsto> \<lparr>X = x, Y = y, Color = c\<rparr>)\<rparr>"

definition RemovePlayer :: "string \<Rightarrow> GameState \<Rightarrow> GameState" where
  "RemovePlayer ident gs = gs\<lparr>Players := (Players gs)(ident := None)\<rparr>"

definition UpdatePosition :: "string \<Rightarrow> float64 \<Rightarrow> float64 \<Rightarrow> GameState \<Rightarrow> GameState" where
  "UpdatePosition ident x y gs =
     (case Players gs ident of
        Some p \<Rightarrow> gs\<lparr>Players := (Players gs)(ident \<mapsto> p\<lparr>X := x, Y := y\<rparr>)\<rparr>
      | None \<Rightarrow> gs)"

definition Snapshot :: "GameState \<Rightarrow> (string \<rightharpoonup> PlayerState)" where
  "Snapshot gs = Players gs"

section \<open>Channels\<close>

text \<open>
  A buffered Go channel: the queued values, oldest first, and whether it has been
  closed. The capacity is fixed when the channel is made and is an argument of the
  send operations. A send on a closed channel and a second close panic; a plain send on
  a full channel suspends the sender, which this sequential model reports as the outcome
  \<open>SendBlocks\<close>.
\<close>

record 'a chan =
  buf :: "'a list"
  closed :: bool

definition make_chan :: "'a chan" where
  "make_chan = \<lparr>buf = [], closed = False\<rparr>"

definition chan_full :: "nat \<Rightarrow> 'a chan \<Rightarrow> bool" where
  "chan_full cap ch = (cap \<le> length (buf ch))"

definition chan_send :: "nat \<Rightarrow> 'a \<Rightarrow> 'a chan \<Rightarrow> error + 'a chan" where
  "chan_send cap v ch =
     (if closed ch then Inl SendOnClosedChannel
      else if chan_full cap ch then Inl SendBlocks
      else Inr (ch\<lparr>buf := buf ch @ [v]\<rparr>))"

text \<open>\<^verbatim>\<open>select { case ch <- v: default: }\<close>; \<open>None\<close> is the default branch.\<close>

definition chan_try_send :: "nat \<Rightarrow> 'a \<Rightarrow> 'a chan \<Rightarrow> error + 'a chan option" where
  "chan_try_send cap v ch =
     (if closed ch then Inl SendOnClosedChannel
      else if chan_full cap ch then Inr None
      else Inr (Some (ch\<lparr>buf := buf ch @ [v]\<rparr>)))"

definition chan_close :: "'a chan \<Rightarrow> error + 'a chan" where
  "chan_close ch = (if closed ch then Inl CloseOfClosedChannel else Inr (ch\<lparr>closed := True\<rparr>))"

section \<open>Sessions and the hub (internal/server/client.go, hub.go)\<close>

definition sendBufferSize :: nat where
  "sendBufferSize = 256"

text \<open>
  A \<^verbatim>\<open>Client\<close> as the hub sees it: its id and its outbound queue. The hub is handed
  \<^verbatim>\<open>*Client\<close> pointers and keys its live set by them, so the model keeps the sessions
  in a heap indexed by pointer.
\<close>

record Client =
  ID :: string
  send :: "bytes chan"

definition NewClient :: "string \<Rightarrow> Client" where
  "NewClient ident = \<lparr>ID = ident, send = make_chan\<rparr>"

type_synonym ptr = nat

datatype log_entry =
  PlayerJoined string nat
  | PlayerLeft string nat

text \<open>
  \<open>clients\<close> is \<^verbatim>\<open>map[*Client]bool\<close>, in which only \<^verbatim>\<open>true\<close> is ever stored and only
  key presence is tested. \<open>heap\<close> holds the sessions the pointers refer to and \<open>logs\<close>
  what the loop has printed.
\<close>

record Hub =
  clients :: "ptr set"
  State :: GameState
  heap :: "ptr \<Rightarrow> Client"
  logs :: "log_entry list"

definition NewHub :: "(ptr \<Rightarrow> Client) \<Rightarrow> Hub" where
  "NewHub mem = \<lparr>clients = {}, State = NewGameState, heap = mem, logs = []\<rparr>"

definition playerColors :: "Color list" where
  "playerColors =
     [\<lparr>R = 231, G = 76, B = 60\<rparr>, \<lparr>R = 46, G = 204, B = 113\<rparr>,
      \<lparr>R = 52, G = 152, B = 219\<rparr>, \<lparr>R = 155, G = 89, B = 182\<rparr>,
      \<lparr>R = 241, G = 196, B = 15\<rparr>, \<lparr>R = 230, G = 126, B = 34\<rparr>,
      \<lparr>R = 26, G = 188, B = 156\<rparr>, \<lparr>R = 236, G = 240, B = 241\<rparr>]"

text \<open>\<open>i\<close> is the value drawn by \<^verbatim>\<open>rand.Intn(len(playerColors))\<close>.\<close>

definition randomColor :: "nat \<Rightarrow> Color" where
  "randomColor i = playerColors ! i"

definition set_send :: "ptr \<Rightarrow> bytes chan \<Rightarrow> Hub \<Rightarrow> Hub" where
  "set_send c ch h = h\<lparr>heap := (heap h)(c := (heap h c)\<lparr>send := ch\<rparr>)\<rparr>"

text \<open>\<^verbatim>\<open>client.send <- msg\<close>, the blocking send of the register case.\<close>

definition send_to :: "ptr \<Rightarrow> bytes \<Rightarrow> Hub \<Rightarrow> error + Hub" where
  "send_to c msg h =
     (case chan_send sendBufferSize msg (send (heap h c)) of
        Inl err \<Rightarrow> Inl err
      | Inr ch \<Rightarrow> Inr (set_send c ch h))"

text \<open>
  \<^verbatim>\<open>close(client.send); delete(h.clients, client); h.State.RemovePlayer(client.ID)\<close>:
  the three statements with which the stop case, the unregister case and the default
  branch of both broadcast loops drop a session. (The unregister case has the delete
  before the close; when the close panics no state is left to differ.)
\<close>

definition drop_client :: "ptr \<Rightarrow> Hub \<Rightarrow> error + Hub" where
  "drop_client c h =
     (case chan_close (send (heap h c)) of
        Inl err \<Rightarrow> Inl err
      | Inr ch \<Rightarrow>
          Inr ((set_send c ch h)
                 \<lparr>clients := clients h - {c},
                  State := RemovePlayer (ID (heap h c)) (State h)\<rparr>))"

text \<open>
  \<^verbatim>\<open>
  func (h *Hub) broadcastBytes(msg []byte) {
      for client := range h.clients {
          select {
          case client.send <- msg:
          default:
              close(client.send)
              delete(h.clients, client)
              h.State.RemovePlayer(client.ID)
          }
      }
  }
  \<close>
  Go leaves the iteration order of a map open. The list argument is the order in which
  one execution of the loop visits the live sessions; the theorems hold for each.
\<close>

fun broadcastBytes :: "ptr list \<Rightarrow> bytes \<Rightarrow> Hub \<Rightarrow> error + Hub" where
  "broadcastBytes [] msg h = Inr h"
| "broadcastBytes (c # cs) msg h =
     (case chan_try_send sendBufferSize msg (send (heap h c)) of
        Inl err \<Rightarrow> Inl err
      | Inr (Some ch) \<Rightarrow> broadcastBytes cs msg (set_send c ch h)
      | Inr None \<Rightarrow>
          (case drop_client c h of
             Inl err \<Rightarrow> Inl err
           | Inr h' \<Rightarrow> broadcastBytes cs msg h'))"

text \<open>
  \<^verbatim>\<open>buildStateMessage\<close>: \<open>keys\<close> is the order in which the loop over the snapshot
  visits its keys. The error of \<^verbatim>\<open>Marshal\<close> is discarded and the nil slice returned.
\<close>

definition snapshotPlayers :: "string list \<Rightarrow> (string \<rightharpoonup> PlayerState) \<Rightarrow> PlayerInfo list" where
  "snapshotPlayers keys snap =
     List.map_filter
       (\<lambda>k. case snap k of
               Some ps \<Rightarrow> Some \<lparr>pi_ID = k, pi_X = X ps, pi_Y = Y ps, pi_Color = Color ps\<rparr>
             | None \<Rightarrow> None) keys"

definition buildStateMessage :: "json \<Rightarrow> string list \<Rightarrow> Hub \<Rightarrow> bytes" where
  "buildStateMessage J keys h =
     (let snap = Snapshot (State h);
          players = snapshotPlayers keys snap
      in case Marshal J MsgState (PState \<lparr>s_Players = players\<rparr>) of
           Inr msg \<Rightarrow> msg
         | Inl err \<Rightarrow> [])"

subsection \<open>The four cases of Hub.Run\<close>

text \<open>
  The stop case: every live session is dropped, then the loop returns.
  \<^verbatim>\<open>
  case <-h.stop:
      for client := range h.clients {
          close(client.send)
          delete(h.clients, client)
          h.State.RemovePlayer(client.ID)
      }
      return
  \<close>
\<close>

fun Run_stop :: "ptr list \<Rightarrow> Hub \<Rightarrow> error + Hub" where
  "Run_stop [] h = Inr h"
| "Run_stop (c # cs) h =
     (case drop_client c h of
        Inl err \<Rightarrow> Inl err
      | Inr h' \<Rightarrow> Run_stop cs h')"

text \<open>
  The register case. \<open>i\<close>, \<open>startX\<close> and \<open>startY\<close> are the random draws (the colour
  index and the two coordinates \<^verbatim>\<open>100.0 + rand.Float64()*440.0\<close> and
  \<^verbatim>\<open>100.0 + rand.Float64()*280.0\<close>); \<open>keys\<close> and \<open>ord\<close> are the iteration orders of
  the snapshot loop and of the join broadcast.
  \<^verbatim>\<open>
  case client := <-h.register:
      h.clients[client] = true
      c := randomColor()
      startX := 100.0 + rand.Float64()*440.0
      startY := 100.0 + rand.Float64()*280.0
      h.State.AddPlayer(client.ID, startX, startY, c)
      if msg, err := protocol.Marshal(protocol.MsgWelcome, protocol.WelcomeData{
          ID: client.ID, Color: c,
      }); err == nil {
          client.send <- msg
      }
      client.send <- h.buildStateMessage()
      if msg, err := protocol.Marshal(protocol.MsgJoin, protocol.JoinData{
          ID: client.ID, X: startX, Y: startY, Color: c,
      }); err == nil {
          h.broadcastBytes(msg)
      }
      log.Printf("player joined: %s (%d total)", client.ID, len(h.clients))
  \<close>
\<close>

definition Run_register ::
  "json \<Rightarrow> nat \<Rightarrow> float64 \<Rightarrow> float64 \<Rightarrow> string list \<Rightarrow> ptr list \<Rightarrow> ptr \<Rightarrow> Hub \<Rightarrow> error + Hub" where
  "Run_register J i startX startY keys ord client h =
     (let h1 = h\<lparr>clients := insert client (clients h)\<rparr>;
          c = randomColor i;
          cid = ID (heap h client);
          h2 = h1\<lparr>State := AddPlayer cid startX startY c (State h1)\<rparr>
      in case (case Marshal J MsgWelcome (PWelcome \<lparr>w_ID = cid, w_Color = c\<rparr>) of
                 Inr msg \<Rightarrow> send_to client msg h2
               | Inl err \<Rightarrow> Inr h2) of
           Inl err \<Rightarrow> Inl err
         | Inr h3 \<Rightarrow>
            (case send_to client (buildStateMessage J keys h3) h3 of
               Inl err \<Rightarrow> Inl err
             | Inr h4 \<Rightarrow>
                (case (case Marshal J MsgJoin
                              (PJoin \<lparr>j_ID = cid, j_X = startX, j_Y = startY, j_Color = c\<rparr>) of
                         Inr msg \<Rightarrow> broadcastBytes ord msg h4
                       | Inl err \<Rightarrow> Inr h4) of
                   Inl err \<Rightarrow> Inl err
                 | Inr h5 \<Rightarrow>
                     Inr (h5\<lparr>logs := logs h5 @ [PlayerJoined cid (card (clients h5))]\<rparr>))))"

text \<open>
  The unregister case.
  \<^verbatim>\<open>
  case client := <-h.unregister:
      if _, ok := h.clients[client]; ok {
          delete(h.clients, client)
          close(client.send)
          h.State.RemovePlayer(client.ID)
          if msg, err := protocol.Marshal(protocol.MsgLeave, protocol.LeaveData{
              ID: client.ID,
          }); err == nil {
              h.broadcastBytes(msg)
          }
          log.Printf("player left: %s (%d total)", client.ID, len(h.clients))
      }
  \<close>
\<close>

definition Run_unregister :: "json \<Rightarrow> ptr list \<Rightarrow> ptr \<Rightarrow> Hub \<Rightarrow> error + Hub" where
  "Run_unregister J ord client h =
     (if client \<in> clients h then
        (case drop_client client h of
           Inl err \<Rightarrow> Inl err
         | Inr h1 \<Rightarrow>
            (case (case Marshal J MsgLeave (PLeave \<lparr>l_ID = ID (heap h client)\<rparr>) of
                     Inr msg \<Rightarrow> broadcastBytes ord msg h1
                   | Inl err \<Rightarrow> Inr h1) of
               Inl err \<Rightarrow> Inl err
             | Inr h2 \<Rightarrow>
                 Inr (h2\<lparr>logs := logs h2 @ [PlayerLeft (ID (heap h client)) (card (clients h2))]\<rparr>)))
      else Inr h)"

text \<open>The broadcast case repeats the loop of \<^verbatim>\<open>broadcastBytes\<close> statement for statement.\<close>

definition Run_broadcast :: "ptr list \<Rightarrow> bytes \<Rightarrow> Hub \<Rightarrow> error + Hub" where
  "Run_broadcast ord message h = broadcastBytes ord message h"

subsection \<open>The event loop\<close>

datatype event = Stop | Register ptr | Unregister ptr | Broadcast bytes

text \<open>
  One iteration of \<^verbatim>\<open>for { select { ... } }\<close>: the event received and the outcome of its
  case, for every admissible choice of iteration orders and random draws.
\<close>

inductive hub_step :: "json \<Rightarrow> Hub \<Rightarrow> event \<Rightarrow> error + Hub \<Rightarrow> bool" for J :: json where
  step_stop:
    "set ord = clients h \<Longrightarrow> distinct ord \<Longrightarrow> hub_step J h Stop (Run_stop ord h)"
| step_register:
    "i < length playerColors \<Longrightarrow>
     set keys = insert (ID (heap h c)) (dom (Players (State h))) \<Longrightarrow> distinct keys \<Longrightarrow>
     set ord = insert c (clients h) \<Longrightarrow> distinct ord \<Longrightarrow>
     hub_step J h (Register c) (Run_register J i startX startY keys ord c h)"
| step_unregister:
    "set ord = clients h - {c} \<Longrightarrow> distinct ord \<Longrightarrow>
     hub_step J h (Unregister c) (Run_unregister J ord c h)"
| step_broadcast:
    "set ord = clients h \<Longrightarrow> distinct ord \<Longrightarrow>
     hub_step J h (Broadcast msg) (Run_broadcast ord msg h)"

text \<open>
  \<open>Run J h es tr\<close>: started in \<open>h\<close> and fed the events \<open>es\<close>, the loop passes through the
  states \<open>tr\<close>, one after each event it completes. It completes no event after Stop
  (the loop has returned) nor after a panic or a send that blocks.
\<close>

inductive Run :: "json \<Rightarrow> Hub \<Rightarrow> event list \<Rightarrow> Hub list \<Rightarrow> bool" for J :: json where
  run_done: "Run J h [] []"
| run_stop: "hub_step J h Stop (Inr h') \<Longrightarrow> Run J h (Stop # es) [h']"
| run_step:
    "e \<noteq> Stop \<Longrightarrow> hub_step J h e (Inr h') \<Longrightarrow> Run J h' es tr \<Longrightarrow> Run J h (e # es) (h' # tr)"
| run_halt: "hub_step J h e (Inl err) \<Longrightarrow> Run J h (e # es) []"

subsection \<open>Notions used in the statements\<close>

text \<open>
  \<open>cid h p\<close> is the id of the session behind pointer \<open>p\<close>; \<open>queue_full\<close> is
  \<^verbatim>\<open>len(c.send) == cap(c.send)\<close>. \<open>after_broadcast S msg h\<close> describes a hub in which
  every session of \<open>S\<close> with room has received \<open>msg\<close> and every full one has been dropped;
  \<open>broadcastBytes\<close> is proved to compute it. \<open>consistent\<close> is the membership invariant
  between the live set and the store, \<open>all_open\<close> says that no live session has a closed
  queue.
\<close>

definition cid :: "Hub \<Rightarrow> ptr \<Rightarrow> string" where
  "cid h p = ID (heap h p)"

definition queue_full :: "Hub \<Rightarrow> ptr \<Rightarrow> bool" where
  "queue_full h p = chan_full sendBufferSize (send (heap h p))"

definition evicted :: "ptr set \<Rightarrow> Hub \<Rightarrow> ptr set" where
  "evicted S h = {c \<in> S. queue_full h c}"

definition delivered :: "bytes \<Rightarrow> bytes chan \<Rightarrow> bytes chan" where
  "delivered msg ch =
     (if chan_full sendBufferSize ch then ch\<lparr>closed := True\<rparr> else ch\<lparr>buf := buf ch @ [msg]\<rparr>)"

definition after_broadcast :: "ptr set \<Rightarrow> bytes \<Rightarrow> Hub \<Rightarrow> Hub" where
  "after_broadcast S msg h =
     h\<lparr>clients := clients h - evicted S h,
       State := \<lparr>Players = (\<lambda>k. if k \<in> cid h ` evicted S h then None else Players (State h) k)\<rparr>,
       heap := (\<lambda>p. if p \<in> S then (heap h p)\<lparr>send := delivered msg (send (heap h p))\<rparr> else heap h p)\<rparr>"


definition all_open :: "Hub \<Rightarrow> bool" where
  "all_open h = (\<forall>c\<in>clients h. \<not> closed (send (heap h c)))"

text \<open>
  \<open>with_player\<close> is the hub after the first statements of the register case (session
  added to the live set, entity written to the store); \<open>enqueue\<close> appends messages to
  one session's queue.
\<close>

definition with_player :: "nat \<Rightarrow> float64 \<Rightarrow> float64 \<Rightarrow> ptr \<Rightarrow> Hub \<Rightarrow> Hub" where
  "with_player i x y c h =
     h\<lparr>clients := insert c (clients h),
       State := AddPlayer (cid h c) x y (randomColor i) (State h)\<rparr>"

definition enqueue :: "ptr \<Rightarrow> bytes list \<Rightarrow> Hub \<Rightarrow> Hub" where
  "enqueue c msgs h = set_send c ((send (heap h c))\<lparr>buf := buf (send (heap h c)) @ msgs\<rparr>) h"

text \<open>
  \<open>fresh h c\<close>: \<open>c\<close> is not live and its queue is as \<^verbatim>\<open>NewClient\<close> made it.
  \<open>registered es\<close> lists the sessions registered by \<open>es\<close>, and \<open>completed es\<close> counts the
  events of \<open>es\<close> up to and including the first Stop.
\<close>

definition fresh :: "Hub \<Rightarrow> ptr \<Rightarrow> bool" where
  "fresh h c = (c \<notin> clients h \<and> send (heap h c) = make_chan)"

fun registered :: "event list \<Rightarrow> ptr list" where
  "registered [] = []"
| "registered (Register c # es) = c # registered es"
| "registered (e # es) = registered es"

fun completed :: "event list \<Rightarrow> nat" where
  "completed [] = 0"
| "completed (Stop # es) = 1"
| "completed (e # es) = Suc (completed es)"

section \<open>Client transport (the client's network file)\<close>

text \<open>
  \<^verbatim>\<open>time.Duration\<close> is an \<^verbatim>\<open>int64\<close> count of nanoseconds; comparisons are signed.
\<close>

type_synonym Duration = "64 word"

definition Second :: Duration where
  "Second = 1000000000"

definition reconnectInitial :: Duration where
  "reconnectInitial = 1 * Second"

definition reconnectMax :: Duration where
  "reconnectMax = 30 * Second"

datatype net_log =
  LogConnecting
  | LogDialError
  | LogConnected
  | LogReadError
  | LogUnmarshalError
  | LogWelcome string Color
  | LogChannelFull

text \<open>
  The fields of \<^verbatim>\<open>Network\<close> that the loops read and write. \<open>messages\<close> is the buffer of
  \<^verbatim>\<open>make(chan protocol.Envelope, 256)\<close>, oldest first; the program never closes this
  channel. \<open>netlog\<close> is what the loops have printed.
\<close>

record Network =
  messages :: "Envelope list"
  connected :: bool
  playerID :: string
  playerColor :: Color
  stopReconnect :: bool
  netlog :: "net_log list"

definition messagesBufferSize :: nat where
  "messagesBufferSize = 256"

text \<open>
  The body of \<^verbatim>\<open>readLoop\<close> for one text frame, in its two parts.
  \<^verbatim>\<open>
  if env.Type == protocol.MsgWelcome {
      var w protocol.WelcomeData
      if err := json.Unmarshal(env.Data, &w); err == nil {
          n.playerID = w.ID; n.playerColor = w.Color
          log.Printf("welcome: ...")
      }
  }
  select {
  case n.messages <- env:
  default:
      log.Println("message channel full, dropping message")
  }
  \<close>
\<close>

definition readLoop_welcome :: "json \<Rightarrow> Envelope \<Rightarrow> Network \<Rightarrow> Network" where
  "readLoop_welcome J env n =
     (if Type env = MsgWelcome then
        (case json_Unmarshal_Welcome J (Data env) of
           Inr w \<Rightarrow> n\<lparr>playerID := w_ID w, playerColor := w_Color w,
                      netlog := netlog n @ [LogWelcome (w_ID w) (w_Color w)]\<rparr>
         | Inl err \<Rightarrow> n)
      else n)"

definition readLoop_deliver :: "Envelope \<Rightarrow> Network \<Rightarrow> Network" where
  "readLoop_deliver env n =
     (if length (messages n) < messagesBufferSize
      then n\<lparr>messages := messages n @ [env]\<rparr>
      else n\<lparr>netlog := netlog n @ [LogChannelFull]\<rparr>)"

definition readLoop_text :: "json \<Rightarrow> bytes \<Rightarrow> Network \<Rightarrow> Network" where
  "readLoop_text J data n =
     (case json_Unmarshal_Envelope J data of
        Inl err \<Rightarrow> n\<lparr>netlog := netlog n @ [LogUnmarshalError]\<rparr>
      | Inr env \<Rightarrow> readLoop_deliver env (readLoop_welcome J env n))"

text \<open>
  \<^verbatim>\<open>readLoop\<close> returns at the first failing \<^verbatim>\<open>conn.Read\<close> and nowhere else. Its
  arguments are the frames read before that and whether the failure is a normal or
  going-away closure, which is not logged.
\<close>

datatype frame = BinaryMessage bytes | TextMessage bytes

fun readLoop :: "json \<Rightarrow> frame list \<Rightarrow> bool \<Rightarrow> Network \<Rightarrow> Network" where
  "readLoop J [] quiet n = (if quiet then n else n\<lparr>netlog := netlog n @ [LogReadError]\<rparr>)"
| "readLoop J (BinaryMessage data # fs) quiet n = readLoop J fs quiet n"
| "readLoop J (TextMessage data # fs) quiet n = readLoop J fs quiet (readLoop_text J data n)"

text \<open>The update of \<^verbatim>\<open>delay\<close> after a failed dial.\<close>

definition nextDelay :: "Duration \<Rightarrow> Duration" where
  "nextDelay delay =
     (if delay <s reconnectMax
      then (let d = delay * 2 in if reconnectMax <s d then reconnectMax else d)
      else delay)"

text \<open>
  \<^verbatim>\<open>connectLoop\<close>. Each element of the list is the outcome of one \<^verbatim>\<open>websocket.Dial\<close>:
  a failure, or a connection together with what \<^verbatim>\<open>readLoop\<close> then reads from it. The
  loop leaves when it finds \<open>stopReconnect\<close> set; the end of the list is the end of the
  observation. The result is the list of delays slept, in order, and the final state.
  \<open>connectLoop_from\<close> is the loop with the current value of \<^verbatim>\<open>delay\<close> as an
  argument; \<open>connectLoop\<close> enters it with \<^verbatim>\<open>delay := reconnectInitial\<close>.
  \<^verbatim>\<open>
  delay := reconnectInitial
  for {
      if n.stopReconnect { return }
      log.Printf("connecting to %s", n.serverURL)
      conn, _, err := websocket.Dial(ctx, n.serverURL, nil)
      if err != nil {
          log.Printf("dial error: %v", err)
          time.Sleep(delay)
          if delay < reconnectMax {
              delay *= 2
              if delay > reconnectMax { delay = reconnectMax }
          }
          continue
      }
      n.conn = conn; n.connected = true
      n.playerID = ""; n.playerColor = protocol.Color{}
      delay = reconnectInitial
      log.Println("websocket connected")
      n.readLoop(ctx, conn)
      n.connected = false; n.conn = nil
  }
  \<close>
\<close>

datatype attempt = DialFails | DialSucceeds "frame list" bool

fun connectLoop_from :: "json \<Rightarrow> attempt list \<Rightarrow> Duration \<Rightarrow> Network \<Rightarrow> Duration list \<times> Network" where
  "connectLoop_from J [] delay n = ([], n)"
| "connectLoop_from J (DialFails # rest) delay n =
     (if stopReconnect n then ([], n)
      else case connectLoop_from J rest (nextDelay delay)
                  (n\<lparr>netlog := netlog n @ [LogConnecting, LogDialError]\<rparr>) of
             (slept, n') \<Rightarrow> (delay # slept, n'))"
| "connectLoop_from J (DialSucceeds fs quiet # rest) delay n =
     (if stopReconnect n then ([], n)
      else connectLoop_from J rest reconnectInitial
             ((readLoop J fs quiet
                 (n\<lparr>connected := True, playerID := [], playerColor := \<lparr>R = 0, G = 0, B = 0\<rparr>,
                    netlog := netlog n @ [LogConnecting, LogConnected]\<rparr>))
              \<lparr>connected := False\<rparr>))"

definition connectLoop :: "json \<Rightarrow> attempt list \<Rightarrow> Network \<Rightarrow> Duration list \<times> Network" where
  "connectLoop J attempts n = connectLoop_from J attempts reconnectInitial n"

text \<open>The state in which \<^verbatim>\<open>connectNetwork\<close> starts the loop.\<close>

definition newNetwork :: Network where
  "newNetwork =
     \<lparr>messages = [], connected = False, playerID = [], playerColor = \<lparr>R = 0, G = 0, B = 0\<rparr>,
      stopReconnect = False, netlog = []\<rparr>"

text \<open>\<^verbatim>\<open>ReceiveMessages\<close> empties the queue and returns what was in it.\<close>

definition ReceiveMessages :: "Network \<Rightarrow> Envelope list \<times> Network" where
  "ReceiveMessages n = (messages n, n\<lparr>messages := []\<rparr>)"

definition PlayerID :: "Network \<Rightarrow> string" where
  "PlayerID n = playerID n"

text \<open>
  The k-th retry delay as the specification gives it, in nanoseconds:
  \<open>min (1s * 2 ^ (k - 1)) 30s\<close>.
\<close>

definition retryDelay :: "nat \<Rightarrow> int" where
  "retryDelay k = min (1000000000 * 2 ^ (k - 1)) 30000000000"

section \<open>Client game (internal/client/game.go)\<close>

datatype game_log = LogStateError | LogJoinError | LogLeaveError

text \<open>
  \<open>g_x\<close> and \<open>g_y\<close> are the fields \<^verbatim>\<open>x\<close> and \<^verbatim>\<open>y\<close>. \<^verbatim>\<open>NewGame\<close> always sets
  \<^verbatim>\<open>network\<close>, so the field is never nil.
\<close>

record Game =
  g_x :: float64
  g_y :: float64
  network :: Network
  players :: "string \<rightharpoonup> PlayerInfo"
  positionSynced :: bool
  wasConnected :: bool
  gamelog :: "game_log list"

text \<open>
  The State case of \<^verbatim>\<open>processMessages\<close>:
  \<^verbatim>\<open>
  case protocol.MsgState:
      var state protocol.StateData
      if err := json.Unmarshal(env.Data, &state); err != nil {
          log.Printf("unmarshal state error: %v", err)
          continue
      }
      newPlayers := make(map[string]protocol.PlayerInfo, len(state.Players))
      for _, p := range state.Players {
          newPlayers[p.ID] = p
      }
      g.players = newPlayers
      if !g.positionSynced && g.network != nil {
          if myID := g.network.PlayerID(); myID != "" {
              if me, ok := newPlayers[myID]; ok {
                  g.x = me.X; g.y = me.Y; g.positionSynced = true
              }
          }
      }
  \<close>
  \<open>collectPlayers\<close> is the loop over \<^verbatim>\<open>state.Players\<close>.
\<close>

fun collectPlayers :: "PlayerInfo list \<Rightarrow> (string \<rightharpoonup> PlayerInfo) \<Rightarrow> (string \<rightharpoonup> PlayerInfo)" where
  "collectPlayers [] m = m"
| "collectPlayers (p # ps) m = collectPlayers ps (m(pi_ID p \<mapsto> p))"

text \<open>The body of the loop of \<^verbatim>\<open>processMessages\<close>: the switch on \<^verbatim>\<open>env.Type\<close>.\<close>

definition processMessage :: "json \<Rightarrow> Envelope \<Rightarrow> Game \<Rightarrow> Game" where
  "processMessage J env g =
     (if Type env = MsgState then
        (case json_Unmarshal_State J (Data env) of
           Inl err \<Rightarrow> g\<lparr>gamelog := gamelog g @ [LogStateError]\<rparr>
         | Inr state \<Rightarrow>
            (let newPlayers = collectPlayers (s_Players state) Map.empty;
                 g1 = g\<lparr>players := newPlayers\<rparr>
             in if \<not> positionSynced g1 then
                  (let myID = PlayerID (network g1)
                   in if myID \<noteq> [] then
                        (case newPlayers myID of
                           Some me \<Rightarrow> g1\<lparr>g_x := pi_X me, g_y := pi_Y me, positionSynced := True\<rparr>
                         | None \<Rightarrow> g1)
                      else g1)
                else g1))
      else if Type env = MsgJoin then
        (case json_Unmarshal_Join J (Data env) of
           Inl err \<Rightarrow> g\<lparr>gamelog := gamelog g @ [LogJoinError]\<rparr>
         | Inr join \<Rightarrow>
             g\<lparr>players := (players g)(j_ID join \<mapsto>
                  \<lparr>pi_ID = j_ID join, pi_X = j_X join, pi_Y = j_Y join, pi_Color = j_Color join\<rparr>)\<rparr>)
      else if Type env = MsgLeave then
        (case json_Unmarshal_Leave J (Data env) of
           Inl err \<Rightarrow> g\<lparr>gamelog := gamelog g @ [LogLeaveError]\<rparr>
         | Inr leave \<Rightarrow> g\<lparr>players := (players g)(l_ID leave := None)\<rparr>)
      else g)"

definition processMessages :: "json \<Rightarrow> Game \<Rightarrow> Game" where
  "processMessages J g =
     (case ReceiveMessages (network g) of
        (msgs, n') \<Rightarrow> fold (processMessage J) msgs (g\<lparr>network := n'\<rparr>))"

section \<open>Sample library, sessions and hubs\<close>

text \<open>
  Concrete values on which the functions are run: a small stand-in for the JSON library
  (the serialised payload is the id it carries, the envelope is type, colon, payload)
  and variants of it whose encoder fails on chosen payloads,
  a heap with two sessions as \<^verbatim>\<open>NewClient\<close> makes them, a hub with one live session,
  a hub with two live sessions of which the first has a full queue, and a client game
  that knows two players.
\<close>

definition sample_json :: json where
  "sample_json =
     \<lparr>json_Marshal = (\<lambda>p. Inr (case p of
          PWelcome w \<Rightarrow> w_ID w
        | PJoin j \<Rightarrow> j_ID j
        | PLeave l \<Rightarrow> l_ID l
        | PPosition q \<Rightarrow> []
        | PState s \<Rightarrow> concat (map pi_ID (s_Players s)))),
      json_Marshal_Envelope = (\<lambda>e. Inr (Type e @ '':'' @ Data e)),
      json_Unmarshal_Envelope = (\<lambda>b.
          if CHR '':'' \<in> set b
          then Inr \<lparr>Type = takeWhile (\<lambda>c. c \<noteq> CHR '':'') b,
                    Data = tl (dropWhile (\<lambda>c. c \<noteq> CHR '':'') b)\<rparr>
          else Inl DecodeError),
      json_Unmarshal_Welcome = (\<lambda>b. Inr \<lparr>w_ID = b, w_Color = \<lparr>R = 0, G = 0, B = 0\<rparr>\<rparr>),
      json_Unmarshal_Join = (\<lambda>b. Inr \<lparr>j_ID = b, j_X = 0, j_Y = 0, j_Color = \<lparr>R = 0, G = 0, B = 0\<rparr>\<rparr>),
      json_Unmarshal_Leave = (\<lambda>b. Inr \<lparr>l_ID = b\<rparr>),
      json_Unmarshal_State = (\<lambda>b. Inr \<lparr>s_Players =
          map (\<lambda>c. \<lparr>pi_ID = [c], pi_X = 0, pi_Y = 0, pi_Color = \<lparr>R = 0, G = 0, B = 0\<rparr>\<rparr>) b\<rparr>)\<rparr>"

definition failing_json :: "(payload \<Rightarrow> bool) \<Rightarrow> json" where
  "failing_json fails =
     sample_json\<lparr>json_Marshal :=
       (\<lambda>p. if fails p then Inl EncodeError else json_Marshal sample_json p)\<rparr>"

definition is_welcome :: "payload \<Rightarrow> bool" where
  "is_welcome p = (case p of PWelcome w \<Rightarrow> True | _ \<Rightarrow> False)"

definition is_join :: "payload \<Rightarrow> bool" where
  "is_join p = (case p of PJoin j \<Rightarrow> True | _ \<Rightarrow> False)"

definition is_state :: "payload \<Rightarrow> bool" where
  "is_state p = (case p of PState st \<Rightarrow> True | _ \<Rightarrow> False)"

definition sample_heap :: "ptr \<Rightarrow> Client" where
  "sample_heap = (\<lambda>p. NewClient [])(1 := NewClient ''player-1'', 2 := NewClient ''player-2'')"

definition sample_hub1 :: Hub where
  "sample_hub1 =
     \<lparr>clients = {1},
      State = AddPlayer ''player-1'' 1 2 (randomColor 0) NewGameState,
      heap = sample_heap, logs = []\<rparr>"

definition sample_hub2 :: Hub where
  "sample_hub2 =
     \<lparr>clients = {1, 2},
      State = AddPlayer ''player-2'' 3 4 (randomColor 1)
                (AddPlayer ''player-1'' 1 2 (randomColor 0) NewGameState),
      heap = sample_heap(1 := \<lparr>ID = ''player-1'',
                               send = \<lparr>buf = replicate 256 ''m'', closed = False\<rparr>\<rparr>),
      logs = []\<rparr>"

definition sample_game :: Game where
  "sample_game =
     \<lparr>g_x = 320, g_y = 240, network = newNetwork,
      players = [''a'' \<mapsto> \<lparr>pi_ID = ''a'', pi_X = 1, pi_Y = 2, pi_Color = \<lparr>R = 1, G = 1, B = 1\<rparr>\<rparr>,
                 ''z'' \<mapsto> \<lparr>pi_ID = ''z'', pi_X = 3, pi_Y = 4, pi_Color = \<lparr>R = 2, G = 2, B = 2\<rparr>\<rparr>],
      positionSynced = False, wasConnected = False, gamelog = []\<rparr>"

section \<open>Store: UpdatePosition\<close>

text \<open>
  C7. For every store, \<open>UpdatePosition ident x y\<close> on a present \<open>ident\<close> sets that
  entity's position to \<open>(x, y)\<close>, keeps its colour and leaves every other entity as it
  was; on an absent \<open>ident\<close> the store is returned unchanged. The function is total:
  it has no error result.
\<close>

theorem UpdatePosition_spec:
  "(\<forall>p. Players gs ident = Some p \<longrightarrow>
      Players (UpdatePosition ident x y gs) ident = Some \<lparr>X = x, Y = y, Color = Color p\<rparr>
      \<and> (\<forall>other. other \<noteq> ident \<longrightarrow>
            Players (UpdatePosition ident x y gs) other = Players gs other))
   \<and> (Players gs ident = None \<longrightarrow> UpdatePosition ident x y gs = gs)"
  by (simp add: UpdatePosition_def)

theorem UpdatePosition_spec_witness:
  "Players (UpdatePosition ''player-1'' 7 9
      (AddPlayer ''player-2'' 3 4 \<lparr>R = 46, G = 204, B = 113\<rparr>
        (AddPlayer ''player-1'' 1 2 \<lparr>R = 231, G = 76, B = 60\<rparr> NewGameState))) ''player-1''
     = Some \<lparr>X = 7, Y = 9, Color = \<lparr>R = 231, G = 76, B = 60\<rparr>\<rparr>
   \<and> Players (UpdatePosition ''player-1'' 7 9
      (AddPlayer ''player-2'' 3 4 \<lparr>R = 46, G = 204, B = 113\<rparr>
        (AddPlayer ''player-1'' 1 2 \<lparr>R = 231, G = 76, B = 60\<rparr> NewGameState))) ''player-2''
     = Some \<lparr>X = 3, Y = 4, Color = \<lparr>R = 46, G = 204, B = 113\<rparr>\<rparr>
   \<and> UpdatePosition ''player-3'' 7 9
      (AddPlayer ''player-1'' 1 2 \<lparr>R = 231, G = 76, B = 60\<rparr> NewGameState)
     = AddPlayer ''player-1'' 1 2 \<lparr>R = 231, G = 76, B = 60\<rparr> NewGameState"
  using UpdatePosition_spec
    [of "AddPlayer ''player-2'' 3 4 \<lparr>R = 46, G = 204, B = 113\<rparr>
          (AddPlayer ''player-1'' 1 2 \<lparr>R = 231, G = 76, B = 60\<rparr> NewGameState)"
        "''player-1''" 7 9]
    UpdatePosition_spec
    [of "AddPlayer ''player-1'' 1 2 \<lparr>R = 231, G = 76, B = 60\<rparr> NewGameState"
        "''player-3''" 7 9]
  by (simp add: AddPlayer_def NewGameState_def)

section \<open>Hub: the broadcast loop and the event cases\<close>

lemma after_broadcast_empty: "after_broadcast {} msg h = h"
  by (simp add: after_broadcast_def evicted_def)

lemma broadcastBytes_closed_form:
  "distinct ord \<Longrightarrow> \<forall>c\<in>set ord. \<not> closed (send (heap h c)) \<Longrightarrow>
   broadcastBytes ord msg h = Inr (after_broadcast (set ord) msg h)"
proof (induction ord arbitrary: h)
  case Nil
  show ?case by (simp add: after_broadcast_empty)
next
  case (Cons c cs)
  have open_c: "\<not> closed (send (heap h c))" and c_notin: "c \<notin> set cs" and dist: "distinct cs"
    using Cons.prems by auto
  show ?case
  proof (cases "queue_full h c")
    case True
    let ?h1 = "(set_send c ((send (heap h c))\<lparr>closed := True\<rparr>) h)
                 \<lparr>clients := clients h - {c}, State := RemovePlayer (ID (heap h c)) (State h)\<rparr>"
    have step: "broadcastBytes (c # cs) msg h = broadcastBytes cs msg ?h1"
      using True open_c
      by (simp add: chan_try_send_def drop_client_def chan_close_def queue_full_def)
    have open1: "\<forall>d\<in>set cs. \<not> closed (send (heap ?h1 d))"
      using Cons.prems c_notin by (auto simp: set_send_def)
    have ev: "evicted (set cs) ?h1 = evicted (set cs) h"
      using c_notin by (auto simp: evicted_def queue_full_def set_send_def)
    have ev2: "evicted (set (c # cs)) h = insert c (evicted (set cs) h)"
      using True by (auto simp: evicted_def)
    have cid1: "cid ?h1 = cid h"
      by (auto simp: cid_def set_send_def fun_eq_iff)
    have "after_broadcast (set cs) msg ?h1 = after_broadcast (set (c # cs)) msg h"
      unfolding after_broadcast_def ev ev2 cid1
      using True c_notin
      by (auto simp: set_send_def RemovePlayer_def delivered_def queue_full_def cid_def fun_eq_iff
               intro!: Hub.equality)
    then show ?thesis using step Cons.IH [OF dist open1] by simp
  next
    case False
    let ?h1 = "set_send c ((send (heap h c))\<lparr>buf := buf (send (heap h c)) @ [msg]\<rparr>) h"
    have step: "broadcastBytes (c # cs) msg h = broadcastBytes cs msg ?h1"
      using False open_c
      by (simp add: chan_try_send_def queue_full_def)
    have open1: "\<forall>d\<in>set cs. \<not> closed (send (heap ?h1 d))"
      using Cons.prems c_notin by (auto simp: set_send_def)
    have ev: "evicted (set cs) ?h1 = evicted (set cs) h"
      using c_notin by (auto simp: evicted_def queue_full_def set_send_def)
    have ev2: "evicted (set (c # cs)) h = evicted (set cs) h"
      using False by (auto simp: evicted_def)
    have cid1: "cid ?h1 = cid h"
      by (auto simp: cid_def set_send_def fun_eq_iff)
    have "after_broadcast (set cs) msg ?h1 = after_broadcast (set (c # cs)) msg h"
      unfolding after_broadcast_def ev ev2 cid1
      using False c_notin
      by (auto simp: set_send_def delivered_def queue_full_def cid_def fun_eq_iff
               intro!: Hub.equality)
    then show ?thesis using step Cons.IH [OF dist open1] by simp
  qed
qed


lemma broadcastBytes_never_blocks: "broadcastBytes ord msg h \<noteq> Inl SendBlocks"
  by (induction ord arbitrary: h)
     (auto simp: chan_try_send_def drop_client_def chan_close_def split: sum.splits option.splits if_splits)

lemma drop_client_Inr:
  "drop_client c h = Inr h' \<Longrightarrow>
     cid h' = cid h \<and> clients h' = clients h - {c}
     \<and> Players (State h') = (Players (State h))(cid h c := None) \<and> logs h' = logs h"
  by (auto simp: drop_client_def chan_close_def set_send_def RemovePlayer_def cid_def fun_eq_iff
           split: if_splits)

lemma send_to_Inr:
  "send_to c msg h = Inr h' \<Longrightarrow>
     cid h' = cid h \<and> clients h' = clients h \<and> State h' = State h \<and> logs h' = logs h"
  by (auto simp: send_to_def chan_send_def set_send_def cid_def fun_eq_iff split: if_splits)

lemma broadcastBytes_Inr:
  "broadcastBytes ord msg h = Inr h' \<Longrightarrow>
     \<exists>E. E \<subseteq> set ord \<and> cid h' = cid h \<and> clients h' = clients h - E
        \<and> Players (State h') = Players (State h) |` (- cid h ` E) \<and> logs h' = logs h"
proof (induction ord arbitrary: h)
  case Nil
  then show ?case by (intro exI [of _ "{}"]) simp
next
  case (Cons c cs)
  show ?case
  proof (cases "chan_try_send sendBufferSize msg (send (heap h c))")
    case (Inl err)
    with Cons.prems show ?thesis by simp
  next
    case (Inr r)
    show ?thesis
    proof (cases r)
      case (Some ch)
      let ?h1 = "set_send c ch h"
      have h1: "cid ?h1 = cid h" "clients ?h1 = clients h" "State ?h1 = State h" "logs ?h1 = logs h"
        by (auto simp: set_send_def cid_def fun_eq_iff)
      from Cons.prems Inr Some have "broadcastBytes cs msg ?h1 = Inr h'" by simp
      from Cons.IH [OF this] obtain E where
        "E \<subseteq> set cs" "cid h' = cid ?h1" "clients h' = clients ?h1 - E"
        "Players (State h') = Players (State ?h1) |` (- cid ?h1 ` E)" "logs h' = logs ?h1"
        by blast
      then show ?thesis unfolding h1 by (intro exI [of _ E]) auto
    next
      case None
      with Cons.prems Inr obtain h1 where
        d: "drop_client c h = Inr h1" and r: "broadcastBytes cs msg h1 = Inr h'"
        by (auto split: sum.splits)
      from drop_client_Inr [OF d] have h1:
        "cid h1 = cid h" "clients h1 = clients h - {c}"
        "Players (State h1) = (Players (State h))(cid h c := None)" "logs h1 = logs h"
        by auto
      from Cons.IH [OF r] obtain E where E:
        "E \<subseteq> set cs" "cid h' = cid h1" "clients h' = clients h1 - E"
        "Players (State h') = Players (State h1) |` (- cid h1 ` E)" "logs h' = logs h1"
        by blast
      have "Players (State h') = Players (State h) |` (- cid h ` insert c E)"
        unfolding E h1 by (auto simp: restrict_map_def fun_eq_iff)
      with E h1 show ?thesis by (intro exI [of _ "insert c E"]) auto
    qed
  qed
qed

lemma Run_stop_Inr:
  "Run_stop ord h = Inr h' \<Longrightarrow>
     cid h' = cid h \<and> clients h' = clients h - set ord
     \<and> Players (State h') = Players (State h) |` (- cid h ` set ord) \<and> logs h' = logs h"
proof (induction ord arbitrary: h)
  case Nil
  then show ?case by simp
next
  case (Cons c cs)
  then obtain h1 where d: "drop_client c h = Inr h1" and r: "Run_stop cs h1 = Inr h'"
    by (auto split: sum.splits)
  from drop_client_Inr [OF d] have h1:
    "cid h1 = cid h" "clients h1 = clients h - {c}"
    "Players (State h1) = (Players (State h))(cid h c := None)" "logs h1 = logs h"
    by auto
  from Cons.IH [OF r] have E:
    "cid h' = cid h1" "clients h' = clients h1 - set cs"
    "Players (State h') = Players (State h1) |` (- cid h1 ` set cs)" "logs h' = logs h1"
    by auto
  have "Players (State h') = Players (State h) |` (- cid h ` set (c # cs))"
    unfolding E h1 by (auto simp: restrict_map_def fun_eq_iff)
  with E h1 show ?case by auto
qed


lemma Run_register_Inr:
  assumes "Run_register J i x y keys ord c h = Inr h'"
  shows "\<exists>E. E \<subseteq> set ord \<and> cid h' = cid h \<and> clients h' = insert c (clients h) - E
     \<and> Players (State h') =
         ((Players (State h))(cid h c \<mapsto> \<lparr>X = x, Y = y, Color = randomColor i\<rparr>)) |` (- cid h ` E)
     \<and> logs h' = logs h @ [PlayerJoined (cid h c) (card (clients h'))]"
proof -
  define h2 where "h2 = h\<lparr>clients := insert c (clients h),
      State := AddPlayer (ID (heap h c)) x y (randomColor i) (State h)\<rparr>"
  have h2: "cid h2 = cid h" "clients h2 = insert c (clients h)" "logs h2 = logs h"
    "Players (State h2) = (Players (State h))(cid h c \<mapsto> \<lparr>X = x, Y = y, Color = randomColor i\<rparr>)"
    by (auto simp: h2_def cid_def AddPlayer_def)
  from assms obtain h3 h4 h5 where
    s3: "(case Marshal J MsgWelcome (PWelcome \<lparr>w_ID = ID (heap h c), w_Color = randomColor i\<rparr>) of
            Inr msg \<Rightarrow> send_to c msg h2 | Inl err \<Rightarrow> Inr h2) = Inr h3"
    and s4: "send_to c (buildStateMessage J keys h3) h3 = Inr h4"
    and s5: "(case Marshal J MsgJoin
                 (PJoin \<lparr>j_ID = ID (heap h c), j_X = x, j_Y = y, j_Color = randomColor i\<rparr>) of
            Inr msg \<Rightarrow> broadcastBytes ord msg h4 | Inl err \<Rightarrow> Inr h4) = Inr h5"
    and h': "h' = h5\<lparr>logs := logs h5 @ [PlayerJoined (ID (heap h c)) (card (clients h5))]\<rparr>"
    unfolding Run_register_def Let_def h2_def [symmetric]
    by (simp add: h2_def split: sum.splits)
  have h3: "cid h3 = cid h2" "clients h3 = clients h2" "State h3 = State h2" "logs h3 = logs h2"
    using s3 send_to_Inr [of c _ h2 h3] by (auto split: sum.splits)
  have h4: "cid h4 = cid h3" "clients h4 = clients h3" "State h4 = State h3" "logs h4 = logs h3"
    using send_to_Inr [OF s4] by auto
  have "\<exists>E. E \<subseteq> set ord \<and> cid h5 = cid h4 \<and> clients h5 = clients h4 - E
        \<and> Players (State h5) = Players (State h4) |` (- cid h4 ` E) \<and> logs h5 = logs h4"
  proof (cases "Marshal J MsgJoin (PJoin \<lparr>j_ID = ID (heap h c), j_X = x, j_Y = y, j_Color = randomColor i\<rparr>)")
    case (Inl err)
    with s5 have "h5 = h4" by simp
    then show ?thesis by (intro exI [of _ "{}"]) (simp add: restrict_map_def)
  next
    case (Inr msg)
    with s5 have "broadcastBytes ord msg h4 = Inr h5" by simp
    from broadcastBytes_Inr [OF this] show ?thesis .
  qed
  then obtain E where E: "E \<subseteq> set ord" "cid h5 = cid h4" "clients h5 = clients h4 - E"
    "Players (State h5) = Players (State h4) |` (- cid h4 ` E)" "logs h5 = logs h4"
    by blast
  have "cid h' = cid h5" "clients h' = clients h5" "State h' = State h5"
    "logs h' = logs h5 @ [PlayerJoined (cid h c) (card (clients h'))]"
    unfolding h' by (auto simp: cid_def fun_eq_iff)
  with E h4 h3 h2 show ?thesis by (intro exI [of _ E]) simp
qed

lemma Run_unregister_Inr:
  assumes "Run_unregister J ord c h = Inr h'" "c \<in> clients h"
  shows "\<exists>E. E \<subseteq> set ord \<and> cid h' = cid h \<and> clients h' = clients h - insert c E
     \<and> Players (State h') = Players (State h) |` (- cid h ` insert c E)
     \<and> logs h' = logs h @ [PlayerLeft (cid h c) (card (clients h'))]"
proof -
  from assms obtain h1 h2 where
    s1: "drop_client c h = Inr h1"
    and s2: "(case Marshal J MsgLeave (PLeave \<lparr>l_ID = ID (heap h c)\<rparr>) of
            Inr msg \<Rightarrow> broadcastBytes ord msg h1 | Inl err \<Rightarrow> Inr h1) = Inr h2"
    and h': "h' = h2\<lparr>logs := logs h2 @ [PlayerLeft (ID (heap h c)) (card (clients h2))]\<rparr>"
    unfolding Run_unregister_def by (simp split: sum.splits)
  from drop_client_Inr [OF s1] have h1:
    "cid h1 = cid h" "clients h1 = clients h - {c}"
    "Players (State h1) = (Players (State h))(cid h c := None)" "logs h1 = logs h"
    by auto
  have "\<exists>E. E \<subseteq> set ord \<and> cid h2 = cid h1 \<and> clients h2 = clients h1 - E
        \<and> Players (State h2) = Players (State h1) |` (- cid h1 ` E) \<and> logs h2 = logs h1"
  proof (cases "Marshal J MsgLeave (PLeave \<lparr>l_ID = ID (heap h c)\<rparr>)")
    case (Inl err)
    with s2 have "h2 = h1" by simp
    then show ?thesis by (intro exI [of _ "{}"]) (simp add: restrict_map_def)
  next
    case (Inr msg)
    with s2 have "broadcastBytes ord msg h1 = Inr h2" by simp
    from broadcastBytes_Inr [OF this] show ?thesis .
  qed
  then obtain E where E: "E \<subseteq> set ord" "cid h2 = cid h1" "clients h2 = clients h1 - E"
    "Players (State h2) = Players (State h1) |` (- cid h1 ` E)" "logs h2 = logs h1"
    by blast
  have e: "cid h' = cid h2" "clients h' = clients h2" "State h' = State h2"
    "logs h' = logs h2 @ [PlayerLeft (cid h c) (card (clients h'))]"
    unfolding h' by (auto simp: cid_def fun_eq_iff)
  have "Players (State h') = Players (State h) |` (- cid h ` insert c E)"
    unfolding e E h1 by (auto simp: restrict_map_def fun_eq_iff)
  moreover have "clients h' = clients h - insert c E"
    unfolding e E h1 by auto
  ultimately show ?thesis using E e h1 by (intro exI [of _ E]) simp
qed




lemma broadcastBytes_Inl:
  "broadcastBytes ord msg h = Inl e \<Longrightarrow> e = SendOnClosedChannel \<or> e = CloseOfClosedChannel"
  by (induction ord arbitrary: h)
     (auto simp: chan_try_send_def drop_client_def chan_close_def
           split: sum.splits option.splits if_splits)

lemma buildStateMessage_State:
  "State h' = State h \<Longrightarrow> buildStateMessage J keys h' = buildStateMessage J keys h"
  by (simp add: buildStateMessage_def)

lemma Run_register_sends:
  assumes "\<not> closed (send (heap h c))"
    and "length (buf (send (heap h c))) + 2 \<le> sendBufferSize"
    and "Marshal J MsgWelcome (PWelcome \<lparr>w_ID = cid h c, w_Color = randomColor i\<rparr>) = Inr w"
  shows "Run_register J i x y keys ord c h =
     (case (case Marshal J MsgJoin
                   (PJoin \<lparr>j_ID = cid h c, j_X = x, j_Y = y, j_Color = randomColor i\<rparr>) of
              Inr msg \<Rightarrow> broadcastBytes ord msg
                 (enqueue c [w, buildStateMessage J keys (with_player i x y c h)] (with_player i x y c h))
            | Inl err \<Rightarrow>
                Inr (enqueue c [w, buildStateMessage J keys (with_player i x y c h)] (with_player i x y c h))) of
        Inl err \<Rightarrow> Inl err
      | Inr h5 \<Rightarrow> Inr (h5\<lparr>logs := logs h5 @ [PlayerJoined (cid h c) (card (clients h5))]\<rparr>))"
proof -
  let ?h2 = "with_player i x y c h"
  let ?s = "buildStateMessage J keys ?h2"
  have s3: "send_to c w ?h2 = Inr (enqueue c [w] ?h2)"
    using assms(1,2)
    by (simp add: send_to_def chan_send_def chan_full_def enqueue_def with_player_def)
  have b: "buildStateMessage J keys (enqueue c [w] ?h2) = ?s"
    by (rule buildStateMessage_State) (simp add: enqueue_def set_send_def)
  have s4: "send_to c ?s (enqueue c [w] ?h2) = Inr (enqueue c [w, ?s] ?h2)"
    using assms(1,2)
    by (simp add: send_to_def chan_send_def chan_full_def enqueue_def with_player_def set_send_def)
  have idc: "ID (heap h c) = cid h c" by (simp add: cid_def)
  show ?thesis
    unfolding Run_register_def Let_def idc assms(3)
    by (simp add: with_player_def [symmetric] s3 s4 b)
qed

lemma Run_register_sends_no_welcome:
  assumes "\<not> closed (send (heap h c))"
    and "length (buf (send (heap h c))) + 1 \<le> sendBufferSize"
    and "Marshal J MsgWelcome (PWelcome \<lparr>w_ID = cid h c, w_Color = randomColor i\<rparr>) = Inl e"
  shows "Run_register J i x y keys ord c h =
     (case (case Marshal J MsgJoin
                   (PJoin \<lparr>j_ID = cid h c, j_X = x, j_Y = y, j_Color = randomColor i\<rparr>) of
              Inr msg \<Rightarrow> broadcastBytes ord msg
                 (enqueue c [buildStateMessage J keys (with_player i x y c h)] (with_player i x y c h))
            | Inl err \<Rightarrow>
                Inr (enqueue c [buildStateMessage J keys (with_player i x y c h)] (with_player i x y c h))) of
        Inl err \<Rightarrow> Inl err
      | Inr h5 \<Rightarrow> Inr (h5\<lparr>logs := logs h5 @ [PlayerJoined (cid h c) (card (clients h5))]\<rparr>))"
proof -
  let ?h2 = "with_player i x y c h"
  let ?s = "buildStateMessage J keys ?h2"
  have s4: "send_to c ?s ?h2 = Inr (enqueue c [?s] ?h2)"
    using assms(1,2)
    by (simp add: send_to_def chan_send_def chan_full_def enqueue_def with_player_def set_send_def)
  have idc: "ID (heap h c) = cid h c" by (simp add: cid_def)
  show ?thesis
    unfolding Run_register_def Let_def idc assms(3)
    by (simp add: with_player_def [symmetric] s4)
qed


lemma send_to_Inl: "send_to c m h = Inl e \<Longrightarrow> e = SendOnClosedChannel \<or> e = SendBlocks"
  by (auto simp: send_to_def chan_send_def split: if_splits sum.splits)

lemma drop_client_Inl: "drop_client c h = Inl e \<Longrightarrow> e = CloseOfClosedChannel"
  by (auto simp: drop_client_def chan_close_def split: if_splits sum.splits)

lemma Run_register_no_EncodeError: "Run_register J i x y keys ord c h \<noteq> Inl EncodeError"
proof
  assume a: "Run_register J i x y keys ord c h = Inl EncodeError"
  then show False
    unfolding Run_register_def Let_def
    by (auto split: sum.splits dest: send_to_Inl broadcastBytes_Inl)
qed

lemma Run_unregister_no_EncodeError: "Run_unregister J ord c h \<noteq> Inl EncodeError"
proof
  assume a: "Run_unregister J ord c h = Inl EncodeError"
  then show False
    unfolding Run_unregister_def
    by (auto split: sum.splits if_splits dest: drop_client_Inl broadcastBytes_Inl)
qed

text \<open>The definitions unfolded when the model is run on the sample values.\<close>

lemmas hub_defs = Run_register_def Run_unregister_def Run_broadcast_def send_to_def set_send_def
  drop_client_def chan_send_def chan_try_send_def chan_close_def chan_full_def sendBufferSize_def
  buildStateMessage_def snapshotPlayers_def Snapshot_def Marshal_def AddPlayer_def RemovePlayer_def
  NewGameState_def NewHub_def NewClient_def make_chan_def randomColor_def playerColors_def
  MsgWelcome_def MsgJoin_def MsgLeave_def MsgState_def List.map_filter_def Let_def

section \<open>Hub: membership invariant\<close>



section \<open>Hub: backpressure\<close>

text \<open>
  C3. In a hub whose live sessions all have open queues and exactly one of them, \<open>c\<close>,
  has a full queue, one broadcast event, whatever the order in which the loop visits the
  sessions, completes and leaves \<open>c\<close> evicted: removed from the live set, its queue
  closed (contents untouched), its entity removed from the store and no other entity
  touched. Every other live session has the message appended to its queue, and sessions
  outside the live set are not touched. No broadcast, in any state, ends in a blocked
  send.
\<close>

theorem broadcast_evicts_full_session:
  assumes "set ord = clients h" "distinct ord" "all_open h"
    and "c \<in> clients h" "queue_full h c"
    and "\<forall>d\<in>clients h. d \<noteq> c \<longrightarrow> \<not> queue_full h d"
  shows "(\<exists>h'. Run_broadcast ord msg h = Inr h'
           \<and> clients h' = clients h - {c}
           \<and> send (heap h' c) = (send (heap h c))\<lparr>closed := True\<rparr>
           \<and> Players (State h') = (Players (State h))(cid h c := None)
           \<and> (\<forall>d\<in>clients h. d \<noteq> c \<longrightarrow>
                 send (heap h' d) = (send (heap h d))\<lparr>buf := buf (send (heap h d)) @ [msg]\<rparr>)
           \<and> (\<forall>p. p \<notin> clients h \<longrightarrow> heap h' p = heap h p)
           \<and> cid h' = cid h \<and> logs h' = logs h)
         \<and> Run_broadcast ord2 msg2 h2 \<noteq> Inl SendBlocks"
proof -
  have ev: "evicted (set ord) h = {c}"
    using assms by (auto simp: evicted_def)
  have "Run_broadcast ord msg h = Inr (after_broadcast (set ord) msg h)"
    unfolding Run_broadcast_def
    using assms(1,2,3) by (intro broadcastBytes_closed_form) (auto simp: all_open_def)
  moreover have "clients (after_broadcast (set ord) msg h) = clients h - {c}"
    by (simp add: after_broadcast_def ev)
  moreover have "send (heap (after_broadcast (set ord) msg h) c) = (send (heap h c))\<lparr>closed := True\<rparr>"
    using assms(1,4,5) by (simp add: after_broadcast_def delivered_def queue_full_def)
  moreover have "Players (State (after_broadcast (set ord) msg h)) = (Players (State h))(cid h c := None)"
    by (auto simp: after_broadcast_def ev fun_eq_iff)
  moreover have "\<forall>d\<in>clients h. d \<noteq> c \<longrightarrow>
      send (heap (after_broadcast (set ord) msg h) d)
        = (send (heap h d))\<lparr>buf := buf (send (heap h d)) @ [msg]\<rparr>"
    using assms(1,6) by (simp add: after_broadcast_def delivered_def queue_full_def)
  moreover have "\<forall>p. p \<notin> clients h \<longrightarrow> heap (after_broadcast (set ord) msg h) p = heap h p"
    using assms(1) by (simp add: after_broadcast_def)
  moreover have "cid (after_broadcast (set ord) msg h) = cid h"
    by (auto simp: after_broadcast_def cid_def fun_eq_iff)
  moreover have "logs (after_broadcast (set ord) msg h) = logs h"
    by (simp add: after_broadcast_def)
  moreover have "Run_broadcast ord2 msg2 h2 \<noteq> Inl SendBlocks"
    unfolding Run_broadcast_def by (rule broadcastBytes_never_blocks)
  ultimately show ?thesis by simp
qed

theorem broadcast_evicts_full_session_witness:
  "\<exists>h'. Run_broadcast [1, 2] ''m'' sample_hub2 = Inr h'
      \<and> clients h' = {2}
      \<and> send (heap h' 1) = \<lparr>buf = replicate 256 ''m'', closed = True\<rparr>
      \<and> Players (State h') ''player-1'' = None
      \<and> send (heap h' 2) = \<lparr>buf = [''m''], closed = False\<rparr>"
proof -
  have a: "set [1, 2] = clients sample_hub2" "distinct [1 :: ptr, 2]" "all_open sample_hub2"
    "1 \<in> clients sample_hub2" "queue_full sample_hub2 1"
    "\<forall>d\<in>clients sample_hub2. d \<noteq> 1 \<longrightarrow> \<not> queue_full sample_hub2 d"
    by (auto simp: sample_hub2_def sample_heap_def all_open_def queue_full_def
        chan_full_def sendBufferSize_def NewClient_def make_chan_def)
  from broadcast_evicts_full_session [OF a, of "''m''" "[]" "[]" sample_hub2]
  obtain h' where h': "Run_broadcast [1, 2] ''m'' sample_hub2 = Inr h'"
    "clients h' = clients sample_hub2 - {1}"
    "send (heap h' 1) = (send (heap sample_hub2 1))\<lparr>closed := True\<rparr>"
    "Players (State h') = (Players (State sample_hub2))(cid sample_hub2 1 := None)"
    "\<forall>d\<in>clients sample_hub2. d \<noteq> 1 \<longrightarrow>
        send (heap h' d) = (send (heap sample_hub2 d))\<lparr>buf := buf (send (heap sample_hub2 d)) @ [''m'']\<rparr>"
    by blast
  from h'(5) have "send (heap h' 2) = (send (heap sample_hub2 2))\<lparr>buf := buf (send (heap sample_hub2 2)) @ [''m'']\<rparr>"
    by (simp add: sample_hub2_def)
  with h'(1,2,3,4) show ?thesis
    by (intro exI [of _ h'])
       (auto simp: sample_hub2_def sample_heap_def cid_def NewClient_def make_chan_def)
qed

section \<open>Hub: unregistering twice\<close>

text \<open>
  C6. Unregistering a session that is not in the live set returns the hub unchanged
  (live set, store, every queue and the log, so no Leave is broadcast and nothing is
  closed) and is not an error. After any completed unregistration of \<open>c\<close>, a second one
  returns the hub unchanged.
\<close>

theorem unregister_absent_is_noop:
  "(c \<notin> clients h \<longrightarrow> Run_unregister J ord c h = Inr h)
   \<and> (\<forall>h'. Run_unregister J ord c h = Inr h' \<longrightarrow> Run_unregister J ord' c h' = Inr h')"
proof (intro conjI allI impI)
  assume "c \<notin> clients h"
  then show "Run_unregister J ord c h = Inr h" by (simp add: Run_unregister_def)
next
  fix h' assume r: "Run_unregister J ord c h = Inr h'"
  have "c \<notin> clients h'"
  proof (cases "c \<in> clients h")
    case True
    from Run_unregister_Inr [OF r True] show ?thesis by auto
  next
    case False
    with r show ?thesis by (simp add: Run_unregister_def)
  qed
  then show "Run_unregister J ord' c h' = Inr h'" by (simp add: Run_unregister_def)
qed

theorem unregister_absent_is_noop_witness:
  "Run_unregister sample_json [] 2 sample_hub1 = Inr sample_hub1
   \<and> (\<exists>h'. Run_unregister sample_json [] 1 sample_hub1 = Inr h'
          \<and> Run_unregister sample_json [] 1 h' = Inr h')"
proof -
  have "\<exists>h'. Run_unregister sample_json [] 1 sample_hub1 = Inr h'"
    by (simp add: hub_defs sample_json_def sample_heap_def sample_hub1_def)
  moreover have "2 \<notin> clients sample_hub1" by (simp add: sample_hub1_def)
  ultimately show ?thesis
    using unregister_absent_is_noop [of 2 sample_hub1 sample_json "[]" "[]"]
      unregister_absent_is_noop [of 1 sample_hub1 sample_json "[]" "[]"]
    by blast
qed

section \<open>Hub: order of delivery on register\<close>



section \<open>Hub: encode failures\<close>

text \<open>
  C10. If \<^verbatim>\<open>Marshal\<close> fails in the register or unregister case, the message is skipped
  and the case completes: with Welcome and Join both failing the session is added to the
  live set and the store and only the State envelope is queued for it; with Welcome
  alone failing the State envelope is followed by the Join broadcast; with Join alone
  failing the session gets Welcome and State and nobody is told of it; with Leave failing
  the session is removed, its queue closed, and no queue receives anything. The log has
  the ordinary joined or left entry only, and no outcome of either case is ever an
  \<open>EncodeError\<close>.
\<close>

theorem encode_failure_is_skipped:
  "(Marshal J MsgWelcome (PWelcome \<lparr>w_ID = cid h c, w_Color = randomColor i\<rparr>) = Inl e1 \<longrightarrow>
    Marshal J MsgJoin (PJoin \<lparr>j_ID = cid h c, j_X = x, j_Y = y, j_Color = randomColor i\<rparr>) = Inl e2 \<longrightarrow>
    \<not> closed (send (heap h c)) \<longrightarrow> \<not> queue_full h c \<longrightarrow>
      Run_register J i x y keys ord c h =
        Inr ((enqueue c [buildStateMessage J keys (with_player i x y c h)] (with_player i x y c h))
               \<lparr>logs := logs h @ [PlayerJoined (cid h c) (card (insert c (clients h)))]\<rparr>))
   \<and> (Marshal J MsgWelcome (PWelcome \<lparr>w_ID = cid h c, w_Color = randomColor i\<rparr>) = Inl e1 \<longrightarrow>
      Marshal J MsgJoin (PJoin \<lparr>j_ID = cid h c, j_X = x, j_Y = y, j_Color = randomColor i\<rparr>) = Inr j \<longrightarrow>
      \<not> closed (send (heap h c)) \<longrightarrow> \<not> queue_full h c \<longrightarrow>
        Run_register J i x y keys ord c h =
          (case broadcastBytes ord j
                  (enqueue c [buildStateMessage J keys (with_player i x y c h)] (with_player i x y c h)) of
             Inl err \<Rightarrow> Inl err
           | Inr h5 \<Rightarrow> Inr (h5\<lparr>logs := logs h5 @ [PlayerJoined (cid h c) (card (clients h5))]\<rparr>)))
   \<and> (Marshal J MsgWelcome (PWelcome \<lparr>w_ID = cid h c, w_Color = randomColor i\<rparr>) = Inr w \<longrightarrow>
      Marshal J MsgJoin (PJoin \<lparr>j_ID = cid h c, j_X = x, j_Y = y, j_Color = randomColor i\<rparr>) = Inl e2 \<longrightarrow>
      \<not> closed (send (heap h c)) \<longrightarrow> length (buf (send (heap h c))) + 2 \<le> sendBufferSize \<longrightarrow>
        Run_register J i x y keys ord c h =
          Inr ((enqueue c [w, buildStateMessage J keys (with_player i x y c h)] (with_player i x y c h))
                 \<lparr>logs := logs h @ [PlayerJoined (cid h c) (card (insert c (clients h)))]\<rparr>))
   \<and> (Marshal J MsgLeave (PLeave \<lparr>l_ID = cid h c\<rparr>) = Inl e3 \<longrightarrow>
      c \<in> clients h \<longrightarrow> \<not> closed (send (heap h c)) \<longrightarrow>
        Run_unregister J ord c h =
          Inr (h\<lparr>clients := clients h - {c},
                 State := RemovePlayer (cid h c) (State h),
                 heap := (heap h)(c := (heap h c)\<lparr>send := (send (heap h c))\<lparr>closed := True\<rparr>\<rparr>),
                 logs := logs h @ [PlayerLeft (cid h c) (card (clients h - {c}))]\<rparr>))
   \<and> Run_register J i x y keys ord c h \<noteq> Inl EncodeError
   \<and> Run_unregister J ord c h \<noteq> Inl EncodeError"
proof (intro conjI impI)
  assume a: "Marshal J MsgWelcome (PWelcome \<lparr>w_ID = cid h c, w_Color = randomColor i\<rparr>) = Inl e1"
    "Marshal J MsgJoin (PJoin \<lparr>j_ID = cid h c, j_X = x, j_Y = y, j_Color = randomColor i\<rparr>) = Inl e2"
    "\<not> closed (send (heap h c))" "\<not> queue_full h c"
  have room: "length (buf (send (heap h c))) + 1 \<le> sendBufferSize"
    using a(4) by (simp add: queue_full_def chan_full_def)
  show "Run_register J i x y keys ord c h =
        Inr ((enqueue c [buildStateMessage J keys (with_player i x y c h)] (with_player i x y c h))
               \<lparr>logs := logs h @ [PlayerJoined (cid h c) (card (insert c (clients h)))]\<rparr>)"
    unfolding Run_register_sends_no_welcome [OF a(3) room a(1)] a(2)
    by (simp add: enqueue_def set_send_def with_player_def)
next
  assume a: "Marshal J MsgWelcome (PWelcome \<lparr>w_ID = cid h c, w_Color = randomColor i\<rparr>) = Inl e1"
    "Marshal J MsgJoin (PJoin \<lparr>j_ID = cid h c, j_X = x, j_Y = y, j_Color = randomColor i\<rparr>) = Inr j"
    "\<not> closed (send (heap h c))" "\<not> queue_full h c"
  have room: "length (buf (send (heap h c))) + 1 \<le> sendBufferSize"
    using a(4) by (simp add: queue_full_def chan_full_def)
  show "Run_register J i x y keys ord c h =
          (case broadcastBytes ord j
                  (enqueue c [buildStateMessage J keys (with_player i x y c h)] (with_player i x y c h)) of
             Inl err \<Rightarrow> Inl err
           | Inr h5 \<Rightarrow> Inr (h5\<lparr>logs := logs h5 @ [PlayerJoined (cid h c) (card (clients h5))]\<rparr>))"
    unfolding Run_register_sends_no_welcome [OF a(3) room a(1)] a(2) by simp
next
  assume a: "Marshal J MsgWelcome (PWelcome \<lparr>w_ID = cid h c, w_Color = randomColor i\<rparr>) = Inr w"
    "Marshal J MsgJoin (PJoin \<lparr>j_ID = cid h c, j_X = x, j_Y = y, j_Color = randomColor i\<rparr>) = Inl e2"
    "\<not> closed (send (heap h c))" "length (buf (send (heap h c))) + 2 \<le> sendBufferSize"
  show "Run_register J i x y keys ord c h =
          Inr ((enqueue c [w, buildStateMessage J keys (with_player i x y c h)] (with_player i x y c h))
                 \<lparr>logs := logs h @ [PlayerJoined (cid h c) (card (insert c (clients h)))]\<rparr>)"
    unfolding Run_register_sends [OF a(3) a(4) a(1)] a(2)
    by (simp add: enqueue_def set_send_def with_player_def)
next
  assume a: "Marshal J MsgLeave (PLeave \<lparr>l_ID = cid h c\<rparr>) = Inl e3"
    "c \<in> clients h" "\<not> closed (send (heap h c))"
  have idc: "ID (heap h c) = cid h c" by (simp add: cid_def)
  show "Run_unregister J ord c h =
          Inr (h\<lparr>clients := clients h - {c},
                 State := RemovePlayer (cid h c) (State h),
                 heap := (heap h)(c := (heap h c)\<lparr>send := (send (heap h c))\<lparr>closed := True\<rparr>\<rparr>),
                 logs := logs h @ [PlayerLeft (cid h c) (card (clients h - {c}))]\<rparr>)"
    unfolding Run_unregister_def idc a(1)
    using a(2,3) by (simp add: drop_client_def chan_close_def set_send_def cid_def)
next
  show "Run_register J i x y keys ord c h \<noteq> Inl EncodeError"
    by (rule Run_register_no_EncodeError)
next
  show "Run_unregister J ord c h \<noteq> Inl EncodeError"
    by (rule Run_unregister_no_EncodeError)
qed

theorem encode_failure_is_skipped_witness:
  "(\<exists>h'. Run_register (failing_json (\<lambda>p. \<not> is_state p)) 1 5 6
             [''player-1'', ''player-2''] [1, 2] 2 sample_hub1 = Inr h'
       \<and> clients h' = {1, 2}
       \<and> Players (State h') ''player-2'' = Some \<lparr>X = 5, Y = 6, Color = \<lparr>R = 46, G = 204, B = 113\<rparr>\<rparr>
       \<and> send (heap h' 2) = \<lparr>buf = [''state:player-1player-2''], closed = False\<rparr>
       \<and> send (heap h' 1) = \<lparr>buf = [], closed = False\<rparr>
       \<and> logs h' = [PlayerJoined ''player-2'' 2])
   \<and> (\<exists>h'. Run_register (failing_json is_welcome) 1 5 6
             [''player-1'', ''player-2''] [1, 2] 2 sample_hub1 = Inr h'
       \<and> clients h' = {1, 2}
       \<and> send (heap h' 2) = \<lparr>buf = [''state:player-1player-2'', ''join:player-2''], closed = False\<rparr>
       \<and> send (heap h' 1) = \<lparr>buf = [''join:player-2''], closed = False\<rparr>
       \<and> logs h' = [PlayerJoined ''player-2'' 2])
   \<and> (\<exists>h'. Run_register (failing_json is_join) 1 5 6
             [''player-1'', ''player-2''] [1, 2] 2 sample_hub1 = Inr h'
       \<and> clients h' = {1, 2}
       \<and> send (heap h' 2) = \<lparr>buf = [''welcome:player-2'', ''state:player-1player-2''], closed = False\<rparr>
       \<and> send (heap h' 1) = \<lparr>buf = [], closed = False\<rparr>
       \<and> logs h' = [PlayerJoined ''player-2'' 2])
   \<and> (\<exists>h'. Run_unregister (failing_json (\<lambda>p. \<not> is_state p)) [2] 1 sample_hub2 = Inr h'
       \<and> clients h' = {2}
       \<and> Players (State h') ''player-1'' = None
       \<and> send (heap h' 1) = \<lparr>buf = replicate 256 ''m'', closed = True\<rparr>
       \<and> send (heap h' 2) = \<lparr>buf = [], closed = False\<rparr>
       \<and> logs h' = [PlayerLeft ''player-1'' 1])"
proof -
  let ?keys = "[''player-1'', ''player-2'']"
  let ?J1 = "failing_json (\<lambda>p. \<not> is_state p)"
  let ?J2 = "failing_json is_welcome"
  let ?J3 = "failing_json is_join"
  note sample_defs = sample_hub1_def sample_hub2_def sample_heap_def sample_json_def
    failing_json_def is_welcome_def is_join_def is_state_def
  have q: "\<not> closed (send (heap sample_hub1 2))" "\<not> queue_full sample_hub1 2"
    "length (buf (send (heap sample_hub1 2))) + 2 \<le> sendBufferSize"
    by (auto simp: sample_defs queue_full_def hub_defs)
  have a1: "Marshal ?J1 MsgWelcome
             (PWelcome \<lparr>w_ID = cid sample_hub1 2, w_Color = randomColor 1\<rparr>) = Inl EncodeError"
    "Marshal ?J1 MsgJoin
       (PJoin \<lparr>j_ID = cid sample_hub1 2, j_X = 5, j_Y = 6, j_Color = randomColor 1\<rparr>) = Inl EncodeError"
    by (auto simp: sample_defs hub_defs)
  have a2: "Marshal ?J2 MsgWelcome
             (PWelcome \<lparr>w_ID = cid sample_hub1 2, w_Color = randomColor 1\<rparr>) = Inl EncodeError"
    "Marshal ?J2 MsgJoin
       (PJoin \<lparr>j_ID = cid sample_hub1 2, j_X = 5, j_Y = 6, j_Color = randomColor 1\<rparr>) = Inr ''join:player-2''"
    by (auto simp: sample_defs cid_def hub_defs)
  have a3: "Marshal ?J3 MsgWelcome
             (PWelcome \<lparr>w_ID = cid sample_hub1 2, w_Color = randomColor 1\<rparr>) = Inr ''welcome:player-2''"
    "Marshal ?J3 MsgJoin
       (PJoin \<lparr>j_ID = cid sample_hub1 2, j_X = 5, j_Y = 6, j_Color = randomColor 1\<rparr>) = Inl EncodeError"
    by (auto simp: sample_defs cid_def hub_defs)
  have b: "Marshal ?J1 MsgLeave (PLeave \<lparr>l_ID = cid sample_hub2 1\<rparr>) = Inl EncodeError"
    "1 \<in> clients sample_hub2" "\<not> closed (send (heap sample_hub2 1))"
    by (auto simp: sample_defs hub_defs)
  have r1: "Run_register ?J1 1 5 6 ?keys [1, 2] 2 sample_hub1 =
        Inr ((enqueue 2 [buildStateMessage ?J1 ?keys (with_player 1 5 6 2 sample_hub1)]
                (with_player 1 5 6 2 sample_hub1))
               \<lparr>logs := logs sample_hub1 @
                  [PlayerJoined (cid sample_hub1 2) (card (insert 2 (clients sample_hub1)))]\<rparr>)"
    using encode_failure_is_skipped
      [where J = ?J1 and h = sample_hub1 and c = 2 and i = 1 and x = 5 and y = 6
         and ?e1.0 = EncodeError and ?e2.0 = EncodeError and keys = ?keys and ord = "[1, 2]"]
      a1 q
    by blast
  have r2: "Run_register ?J2 1 5 6 ?keys [1, 2] 2 sample_hub1 =
          (case broadcastBytes [1, 2] ''join:player-2''
                  (enqueue 2 [buildStateMessage ?J2 ?keys (with_player 1 5 6 2 sample_hub1)]
                     (with_player 1 5 6 2 sample_hub1)) of
             Inl err \<Rightarrow> Inl err
           | Inr h5 \<Rightarrow>
               Inr (h5\<lparr>logs := logs h5 @ [PlayerJoined (cid sample_hub1 2) (card (clients h5))]\<rparr>))"
    using encode_failure_is_skipped
      [where J = ?J2 and h = sample_hub1 and c = 2 and i = 1 and x = 5 and y = 6
         and ?e1.0 = EncodeError and j = "''join:player-2''" and keys = ?keys and ord = "[1, 2]"]
      a2 q
    by blast
  have r3: "Run_register ?J3 1 5 6 ?keys [1, 2] 2 sample_hub1 =
        Inr ((enqueue 2 [''welcome:player-2'',
                         buildStateMessage ?J3 ?keys (with_player 1 5 6 2 sample_hub1)]
                (with_player 1 5 6 2 sample_hub1))
               \<lparr>logs := logs sample_hub1 @
                  [PlayerJoined (cid sample_hub1 2) (card (insert 2 (clients sample_hub1)))]\<rparr>)"
    using encode_failure_is_skipped
      [where J = ?J3 and h = sample_hub1 and c = 2 and i = 1 and x = 5 and y = 6
         and w = "''welcome:player-2''" and ?e2.0 = EncodeError and keys = ?keys and ord = "[1, 2]"]
      a3 q
    by blast
  have u: "Run_unregister ?J1 [2] 1 sample_hub2 =
          Inr (sample_hub2\<lparr>clients := clients sample_hub2 - {1},
                 State := RemovePlayer (cid sample_hub2 1) (State sample_hub2),
                 heap := (heap sample_hub2)
                   (1 := (heap sample_hub2 1)\<lparr>send := (send (heap sample_hub2 1))\<lparr>closed := True\<rparr>\<rparr>),
                 logs := logs sample_hub2 @
                   [PlayerLeft (cid sample_hub2 1) (card (clients sample_hub2 - {1}))]\<rparr>)"
    using encode_failure_is_skipped
      [where J = ?J1 and h = sample_hub2 and c = 1 and ?e3.0 = EncodeError and ord = "[2]"] b
    by blast
  show ?thesis
    unfolding r1 r2 r3 u
    by (auto simp: enqueue_def with_player_def cid_def sample_defs hub_defs)
qed

section \<open>Hub: the loop neither panics nor blocks\<close>

text \<open>
  The hypotheses of the theorems above hold along every run of the server. No live
  session ever has a closed queue. Started in such a hub and fed events in which every
  registered session is new (not live, queue empty and open, registered once), the loop
  completes every event up to the first Stop: no send on a closed channel, no second
  close, no blocked send. From a hub with finitely many sessions and entities a run
  exists for every sequence of events.
\<close>

lemma broadcastBytes_all_open:
  "broadcastBytes ord msg h = Inr h' \<Longrightarrow> all_open h \<Longrightarrow> all_open h'"
proof (induction ord arbitrary: h)
  case Nil
  then show ?case by simp
next
  case (Cons c cs)
  show ?case
  proof (cases "chan_try_send sendBufferSize msg (send (heap h c))")
    case (Inl err)
    with Cons.prems show ?thesis by simp
  next
    case (Inr r)
    show ?thesis
    proof (cases r)
      case (Some ch)
      have "\<not> closed ch"
        using Inr Some by (auto simp: chan_try_send_def split: if_splits)
      then have "all_open (set_send c ch h)"
        using Cons.prems(2) by (auto simp: all_open_def set_send_def)
      moreover have "broadcastBytes cs msg (set_send c ch h) = Inr h'"
        using Cons.prems(1) Inr Some by simp
      ultimately show ?thesis by (rule Cons.IH [rotated])
    next
      case None
      with Cons.prems(1) Inr obtain h1 where
        d: "drop_client c h = Inr h1" and r: "broadcastBytes cs msg h1 = Inr h'"
        by (auto split: sum.splits)
      have "all_open h1"
        using d Cons.prems(2)
        by (auto simp: drop_client_def chan_close_def all_open_def set_send_def split: if_splits)
      with r show ?thesis by (rule Cons.IH)
    qed
  qed
qed

lemma drop_client_all_open:
  "drop_client c h = Inr h' \<Longrightarrow> all_open h \<Longrightarrow> all_open h'"
  by (auto simp: drop_client_def chan_close_def all_open_def set_send_def split: if_splits)

lemma Run_stop_all_open:
  "Run_stop ord h = Inr h' \<Longrightarrow> all_open h \<Longrightarrow> all_open h'"
proof (induction ord arbitrary: h)
  case Nil
  then show ?case by simp
next
  case (Cons c cs)
  then obtain h1 where d: "drop_client c h = Inr h1" and r: "Run_stop cs h1 = Inr h'"
    by (auto split: sum.splits)
  from drop_client_all_open [OF d Cons.prems(2)] r show ?case by (rule Cons.IH [rotated])
qed

lemma send_to_all_open:
  "send_to c msg h = Inr h' \<Longrightarrow> all_open h \<Longrightarrow> all_open h'"
  by (auto simp: send_to_def chan_send_def all_open_def set_send_def split: if_splits)

lemma send_to_opens:
  "send_to c msg h = Inr h' \<Longrightarrow> \<not> closed (send (heap h' c))"
  by (auto simp: send_to_def chan_send_def set_send_def split: if_splits)

lemma Run_register_all_open:
  assumes "Run_register J i x y keys ord c h = Inr h'" "all_open h"
  shows "all_open h'"
proof -
  define h2 where "h2 = h\<lparr>clients := insert c (clients h),
      State := AddPlayer (ID (heap h c)) x y (randomColor i) (State h)\<rparr>"
  from assms(1) obtain h3 h4 h5 where
    s3: "(case Marshal J MsgWelcome (PWelcome \<lparr>w_ID = ID (heap h c), w_Color = randomColor i\<rparr>) of
            Inr msg \<Rightarrow> send_to c msg h2 | Inl err \<Rightarrow> Inr h2) = Inr h3"
    and s4: "send_to c (buildStateMessage J keys h3) h3 = Inr h4"
    and s5: "(case Marshal J MsgJoin
                 (PJoin \<lparr>j_ID = ID (heap h c), j_X = x, j_Y = y, j_Color = randomColor i\<rparr>) of
            Inr msg \<Rightarrow> broadcastBytes ord msg h4 | Inl err \<Rightarrow> Inr h4) = Inr h5"
    and h': "h' = h5\<lparr>logs := logs h5 @ [PlayerJoined (ID (heap h c)) (card (clients h5))]\<rparr>"
    unfolding Run_register_def Let_def h2_def [symmetric]
    by (simp add: h2_def split: sum.splits)
  have h3: "clients h3 = insert c (clients h)" "\<forall>d. d \<noteq> c \<longrightarrow> heap h3 d = heap h d"
    using s3 by (auto simp: h2_def send_to_def chan_send_def set_send_def split: sum.splits if_splits)
  have h4: "clients h4 = insert c (clients h)" "\<forall>d. d \<noteq> c \<longrightarrow> heap h4 d = heap h d"
    using s4 h3 by (auto simp: send_to_def chan_send_def set_send_def split: sum.splits if_splits)
  have "all_open h4"
    using send_to_opens [OF s4] h4 assms(2) by (auto simp: all_open_def)
  then have "all_open h5"
    using s5 broadcastBytes_all_open by (auto split: sum.splits)
  then show ?thesis by (simp add: h' all_open_def)
qed

lemma Run_unregister_all_open:
  assumes "Run_unregister J ord c h = Inr h'" "all_open h"
  shows "all_open h'"
proof (cases "c \<in> clients h")
  case False
  with assms show ?thesis by (simp add: Run_unregister_def)
next
  case True
  with assms(1) obtain h1 h2 where
    s1: "drop_client c h = Inr h1"
    and s2: "(case Marshal J MsgLeave (PLeave \<lparr>l_ID = ID (heap h c)\<rparr>) of
            Inr msg \<Rightarrow> broadcastBytes ord msg h1 | Inl err \<Rightarrow> Inr h1) = Inr h2"
    and h': "h' = h2\<lparr>logs := logs h2 @ [PlayerLeft (ID (heap h c)) (card (clients h2))]\<rparr>"
    unfolding Run_unregister_def by (simp split: sum.splits)
  have "all_open h1" by (rule drop_client_all_open [OF s1 assms(2)])
  then have "all_open h2"
    using s2 broadcastBytes_all_open by (auto split: sum.splits)
  then show ?thesis by (simp add: h' all_open_def)
qed

lemma hub_step_all_open:
  assumes "hub_step J h e (Inr h')" "all_open h"
  shows "all_open h'"
  using assms(1)
proof (cases rule: hub_step.cases)
  case (step_stop ord)
  then show ?thesis using Run_stop_all_open [of ord h h'] assms(2) by simp
next
  case (step_register i keys c ord startX startY)
  then show ?thesis using Run_register_all_open [of J i startX startY keys ord c h h'] assms(2) by simp
next
  case (step_unregister ord c)
  then show ?thesis using Run_unregister_all_open [of J ord c h h'] assms(2) by simp
next
  case (step_broadcast ord msg)
  then show ?thesis
    using broadcastBytes_all_open [of ord msg h h'] assms(2) by (simp add: Run_broadcast_def)
qed

lemma Run_all_open:
  "Run J h es tr \<Longrightarrow> all_open h \<Longrightarrow> \<forall>h'\<in>set tr. all_open h'"
proof (induction rule: Run.induct)
  case (run_stop h h' es)
  then show ?case using hub_step_all_open by auto
next
  case (run_step e h h' es tr)
  then show ?case using hub_step_all_open by auto
qed simp_all

lemma set_registered: "set (registered es) = {c. Register c \<in> set es}"
  by (induction es rule: registered.induct) auto

lemma Run_stop_completes:
  "distinct ord \<Longrightarrow> \<forall>c\<in>set ord. \<not> closed (send (heap h c)) \<Longrightarrow> \<exists>h'. Run_stop ord h = Inr h'"
proof (induction ord arbitrary: h)
  case Nil
  show ?case by simp
next
  case (Cons c cs)
  let ?h1 = "(set_send c ((send (heap h c))\<lparr>closed := True\<rparr>) h)
                 \<lparr>clients := clients h - {c}, State := RemovePlayer (ID (heap h c)) (State h)\<rparr>"
  have d: "drop_client c h = Inr ?h1"
    using Cons.prems by (simp add: drop_client_def chan_close_def)
  have "\<forall>d\<in>set cs. \<not> closed (send (heap ?h1 d))"
    using Cons.prems by (auto simp: set_send_def)
  with Cons.IH [of ?h1] Cons.prems(1) obtain h' where "Run_stop cs ?h1 = Inr h'" by auto
  with d show ?case by simp
qed

lemma drop_client_frame:
  "drop_client c h = Inr h1 \<Longrightarrow> d \<noteq> c \<Longrightarrow> heap h1 d = heap h d"
  by (auto simp: drop_client_def chan_close_def set_send_def split: if_splits)

lemma broadcastBytes_frame:
  "broadcastBytes ord msg h = Inr h' \<Longrightarrow> d \<notin> set ord \<Longrightarrow> heap h' d = heap h d"
proof (induction ord arbitrary: h)
  case Nil
  then show ?case by simp
next
  case (Cons c cs)
  have dc: "d \<noteq> c" and dcs: "d \<notin> set cs" using Cons.prems(2) by auto
  show ?case
  proof (cases "chan_try_send sendBufferSize msg (send (heap h c))")
    case (Inl err)
    with Cons.prems show ?thesis by simp
  next
    case (Inr r)
    show ?thesis
    proof (cases r)
      case (Some ch)
      with Cons.prems(1) Inr have "broadcastBytes cs msg (set_send c ch h) = Inr h'" by simp
      from Cons.IH [OF this dcs] dc show ?thesis by (simp add: set_send_def)
    next
      case None
      with Cons.prems(1) Inr obtain h1 where
        d: "drop_client c h = Inr h1" and r: "broadcastBytes cs msg h1 = Inr h'"
        by (auto split: sum.splits)
      from Cons.IH [OF r dcs] drop_client_frame [OF d dc] show ?thesis by simp
    qed
  qed
qed

lemma Run_stop_frame:
  "Run_stop ord h = Inr h' \<Longrightarrow> d \<notin> set ord \<Longrightarrow> heap h' d = heap h d"
proof (induction ord arbitrary: h)
  case Nil
  then show ?case by simp
next
  case (Cons c cs)
  have dc: "d \<noteq> c" and dcs: "d \<notin> set cs" using Cons.prems(2) by auto
  from Cons.prems(1) obtain h1 where
    d: "drop_client c h = Inr h1" and r: "Run_stop cs h1 = Inr h'"
    by (auto split: sum.splits)
  from Cons.IH [OF r dcs] drop_client_frame [OF d dc] show ?case by simp
qed

lemma hub_step_completes:
  assumes "hub_step J h e r" "all_open h" "\<forall>c. e = Register c \<longrightarrow> fresh h c"
  shows "\<exists>h'. r = Inr h'"
  using assms(1)
proof (cases rule: hub_step.cases)
  case (step_stop ord)
  then show ?thesis
    using Run_stop_completes [of ord h] assms(2) by (auto simp: all_open_def)
next
  case (step_broadcast ord msg)
  then show ?thesis
    using broadcastBytes_closed_form [of ord h msg] assms(2)
    by (auto simp: all_open_def Run_broadcast_def)
next
  case (step_unregister ord c)
  show ?thesis
  proof (cases "c \<in> clients h")
    case False
    with step_unregister show ?thesis by (simp add: Run_unregister_def)
  next
    case True
    let ?h1 = "(set_send c ((send (heap h c))\<lparr>closed := True\<rparr>) h)
                 \<lparr>clients := clients h - {c}, State := RemovePlayer (ID (heap h c)) (State h)\<rparr>"
    have d: "drop_client c h = Inr ?h1"
      using True assms(2) by (simp add: drop_client_def chan_close_def all_open_def)
    have "\<forall>d\<in>set ord. \<not> closed (send (heap ?h1 d))"
      using step_unregister(3) assms(2) by (auto simp: set_send_def all_open_def)
    from broadcastBytes_closed_form [OF step_unregister(4) this]
    show ?thesis
      unfolding step_unregister(2) Run_unregister_def using True d
      by (simp split: sum.splits)
  qed
next
  case (step_register i keys c ord startX startY)
  have f: "\<not> closed (send (heap h c))" "buf (send (heap h c)) = []"
    using assms(3) step_register(1) by (simp_all add: fresh_def make_chan_def)
  then have room: "length (buf (send (heap h c))) + 2 \<le> sendBufferSize"
    "length (buf (send (heap h c))) + 1 \<le> sendBufferSize"
    by (simp_all add: sendBufferSize_def)
  let ?h2 = "with_player i startX startY c h"
  have open_enq: "\<forall>d\<in>set ord. \<not> closed (send (heap (enqueue c msgs ?h2) d))" for msgs
    using step_register(6) assms(2) f(1)
    by (auto simp: enqueue_def set_send_def with_player_def all_open_def)
  show ?thesis
  proof (cases "Marshal J MsgWelcome (PWelcome \<lparr>w_ID = cid h c, w_Color = randomColor i\<rparr>)")
    case (Inr w)
    show ?thesis
      unfolding step_register(2) Run_register_sends [OF f(1) room(1) Inr]
      using broadcastBytes_closed_form [OF step_register(7) open_enq]
      by (simp split: sum.splits)
  next
    case (Inl err)
    show ?thesis
      unfolding step_register(2) Run_register_sends_no_welcome [OF f(1) room(2) Inl]
      using broadcastBytes_closed_form [OF step_register(7) open_enq]
      by (simp split: sum.splits)
  qed
qed

lemma hub_step_frame:
  assumes "hub_step J h e (Inr h')" "d \<notin> clients h" "e \<noteq> Register d"
  shows "heap h' d = heap h d \<and> d \<notin> clients h'"
  using assms(1)
proof (cases rule: hub_step.cases)
  case (step_stop ord)
  with Run_stop_frame [of ord h h' d] Run_stop_Inr [of ord h h'] assms(2)
  show ?thesis by auto
next
  case (step_broadcast ord msg)
  with broadcastBytes_frame [of ord msg h h' d] broadcastBytes_Inr [of ord msg h h'] assms(2)
  show ?thesis by (auto simp: Run_broadcast_def)
next
  case (step_unregister ord c)
  show ?thesis
  proof (cases "c \<in> clients h")
    case False
    with step_unregister assms(2) show ?thesis by (simp add: Run_unregister_def)
  next
    case True
    with step_unregister(2) obtain h1 h2 where
      s1: "drop_client c h = Inr h1"
      and s2: "(case Marshal J MsgLeave (PLeave \<lparr>l_ID = ID (heap h c)\<rparr>) of
            Inr msg \<Rightarrow> broadcastBytes ord msg h1 | Inl err \<Rightarrow> Inr h1) = Inr h2"
      and h': "h' = h2\<lparr>logs := logs h2 @ [PlayerLeft (ID (heap h c)) (card (clients h2))]\<rparr>"
      unfolding Run_unregister_def by (auto split: sum.splits)
    have dc: "d \<noteq> c" using True assms(2) by auto
    have h1: "heap h1 d = heap h d"
      using s1 dc by (auto simp: drop_client_def chan_close_def set_send_def split: if_splits)
    have "d \<notin> set ord" using step_unregister(3) assms(2) by auto
    then have h2: "heap h2 d = heap h1 d"
      using s2 broadcastBytes_frame by (auto split: sum.splits)
    from Run_unregister_Inr [OF step_unregister(2) [symmetric] True] assms(2)
    have "d \<notin> clients h'" by auto
    with h1 h2 h' show ?thesis by simp
  qed
next
  case (step_register i keys c ord startX startY)
  have dc: "d \<noteq> c" using assms(3) step_register(1) by auto
  define h2 where "h2 = h\<lparr>clients := insert c (clients h),
      State := AddPlayer (ID (heap h c)) startX startY (randomColor i) (State h)\<rparr>"
  from step_register(2) obtain h3 h4 h5 where
    s3: "(case Marshal J MsgWelcome (PWelcome \<lparr>w_ID = ID (heap h c), w_Color = randomColor i\<rparr>) of
            Inr msg \<Rightarrow> send_to c msg h2 | Inl err \<Rightarrow> Inr h2) = Inr h3"
    and s4: "send_to c (buildStateMessage J keys h3) h3 = Inr h4"
    and s5: "(case Marshal J MsgJoin
                 (PJoin \<lparr>j_ID = ID (heap h c), j_X = startX, j_Y = startY, j_Color = randomColor i\<rparr>) of
            Inr msg \<Rightarrow> broadcastBytes ord msg h4 | Inl err \<Rightarrow> Inr h4) = Inr h5"
    and h': "h' = h5\<lparr>logs := logs h5 @ [PlayerJoined (ID (heap h c)) (card (clients h5))]\<rparr>"
    unfolding Run_register_def Let_def h2_def [symmetric]
    by (auto simp: h2_def split: sum.splits)
  have h3: "heap h3 d = heap h d"
    using s3 dc by (auto simp: h2_def send_to_def chan_send_def set_send_def split: sum.splits if_splits)
  have h4: "heap h4 d = heap h3 d"
    using s4 dc by (auto simp: send_to_def chan_send_def set_send_def split: sum.splits if_splits)
  have "d \<notin> set ord" using step_register(6) assms(2) dc by auto
  then have h5: "heap h5 d = heap h4 d"
    using s5 broadcastBytes_frame by (auto split: sum.splits)
  from Run_register_Inr [OF step_register(2) [symmetric]] assms(2) dc
  have "d \<notin> clients h'" by auto
  with h3 h4 h5 h' show ?thesis by simp
qed

lemma Run_completes:
  assumes "Run J h es tr" "all_open h" "\<forall>c\<in>set (registered es). fresh h c"
    and "distinct (registered es)"
  shows "length tr = completed es"
  using assms
proof (induction rule: Run.induct)
  case (run_done h)
  show ?case by simp
next
  case (run_stop h h' es)
  show ?case by simp
next
  case (run_halt h e err es)
  have "\<forall>c. e = Register c \<longrightarrow> fresh h c" using run_halt.prems(2) by auto
  from hub_step_completes [OF run_halt.hyps run_halt.prems(1) this] show ?case by simp
next
  case (run_step e h h' es tr)
  have o: "all_open h'" by (rule hub_step_all_open [OF run_step.hyps(2) run_step.prems(1)])
  have f: "\<forall>c\<in>set (registered es). fresh h' c"
  proof
    fix c assume c: "c \<in> set (registered es)"
    have "c \<in> set (registered (e # es))" using c by (cases e) auto
    with run_step.prems(2) have fr: "fresh h c" by blast
    have "e \<noteq> Register c" using c run_step.prems(3) by auto
    from hub_step_frame [OF run_step.hyps(2) _ this] fr
    show "fresh h' c" by (auto simp: fresh_def)
  qed
  have d: "distinct (registered es)" using run_step.prems(3) by (cases e) auto
  from run_step.IH [OF o f d] run_step.hyps(1) show ?case by (cases e) auto
qed

lemma hub_step_exists:
  assumes "finite (clients h)" "finite (dom (Players (State h)))"
  shows "\<exists>r. hub_step J h e r"
proof (cases e)
  case Stop
  obtain ord where ord: "set ord = clients h" "distinct ord"
    using finite_distinct_list [OF assms(1)] by blast
  have "hub_step J h Stop (Run_stop ord h)" by (rule step_stop [OF ord])
  then show ?thesis unfolding Stop by (rule exI)
next
  case (Broadcast msg)
  obtain ord where ord: "set ord = clients h" "distinct ord"
    using finite_distinct_list [OF assms(1)] by blast
  have "hub_step J h (Broadcast msg) (Run_broadcast ord msg h)" by (rule step_broadcast [OF ord])
  then show ?thesis unfolding Broadcast by (rule exI)
next
  case (Unregister c)
  have "finite (clients h - {c})" using assms(1) by simp
  from finite_distinct_list [OF this]
  obtain ord where ord: "set ord = clients h - {c}" "distinct ord" by blast
  have "hub_step J h (Unregister c) (Run_unregister J ord c h)" by (rule step_unregister [OF ord])
  then show ?thesis unfolding Unregister by (rule exI)
next
  case (Register c)
  have "finite (insert c (clients h))" using assms(1) by simp
  from finite_distinct_list [OF this]
  obtain ord where ord: "set ord = insert c (clients h)" "distinct ord" by blast
  have "finite (insert (ID (heap h c)) (dom (Players (State h))))" using assms(2) by simp
  from finite_distinct_list [OF this]
  obtain keys where keys: "set keys = insert (ID (heap h c)) (dom (Players (State h)))" "distinct keys"
    by blast
  have i: "0 < length playerColors" by (simp add: playerColors_def)
  have "hub_step J h (Register c) (Run_register J 0 0 0 keys ord c h)"
    by (rule step_register [OF i keys ord])
  then show ?thesis unfolding Register by (rule exI)
qed

lemma hub_step_finite:
  assumes "hub_step J h e (Inr h')" "finite (clients h)" "finite (dom (Players (State h)))"
  shows "finite (clients h') \<and> finite (dom (Players (State h')))"
  using assms(1)
proof (cases rule: hub_step.cases)
  case (step_stop ord)
  from Run_stop_Inr [OF step_stop(2) [symmetric]] assms(2,3) show ?thesis by auto
next
  case (step_broadcast ord msg)
  from broadcastBytes_Inr [of ord msg h h'] step_broadcast(2) assms(2,3)
  show ?thesis by (auto simp: Run_broadcast_def)
next
  case (step_unregister ord c)
  show ?thesis
  proof (cases "c \<in> clients h")
    case False
    with step_unregister assms(2,3) show ?thesis by (simp add: Run_unregister_def)
  next
    case True
    from Run_unregister_Inr [OF step_unregister(2) [symmetric] True] assms(2,3)
    show ?thesis by auto
  qed
next
  case (step_register i keys c ord startX startY)
  from Run_register_Inr [OF step_register(2) [symmetric]] assms(2,3)
  show ?thesis by auto
qed

lemma Run_exists:
  "finite (clients h) \<Longrightarrow> finite (dom (Players (State h))) \<Longrightarrow> \<exists>tr. Run J h es tr"
proof (induction es arbitrary: h)
  case Nil
  show ?case using run_done by blast
next
  case (Cons e es)
  from hub_step_exists [OF Cons.prems] obtain r where r: "hub_step J h e r" by blast
  show ?case
  proof (cases r)
    case (Inl err)
    with r run_halt show ?thesis by blast
  next
    case (Inr h')
    show ?thesis
    proof (cases "e = Stop")
      case True
      with r Inr run_stop show ?thesis by blast
    next
      case False
      from hub_step_finite [OF r [unfolded Inr] Cons.prems]
      have "finite (clients h')" "finite (dom (Players (State h')))" by simp_all
      from Cons.IH [OF this] obtain tr where "Run J h' es tr" by blast
      with run_step [OF False r [unfolded Inr]] show ?thesis by blast
    qed
  qed
qed

section \<open>Client transport: reconnect backoff\<close>

lemma nextDelay_values:
  "nextDelay 1000000000 = 2000000000"
  "nextDelay 2000000000 = 4000000000"
  "nextDelay 4000000000 = 8000000000"
  "nextDelay 8000000000 = 16000000000"
  "nextDelay 16000000000 = 30000000000"
  "nextDelay 30000000000 = 30000000000"
  by (simp_all add: nextDelay_def reconnectMax_def Second_def word_sless_alt Let_def)

lemma nextDelay_funpow:
  "(nextDelay ^^ j) reconnectInitial =
     (if j = 0 then 1000000000 else if j = 1 then 2000000000 else if j = 2 then 4000000000
      else if j = 3 then 8000000000 else if j = 4 then 16000000000 else 30000000000)"
proof (induction j)
  case 0
  show ?case by (simp add: reconnectInitial_def Second_def)
next
  case (Suc j)
  show ?case unfolding funpow.simps o_def Suc.IH
    by (simp add: nextDelay_values)
qed

lemma sint_nextDelay_funpow:
  "sint ((nextDelay ^^ j) reconnectInitial) = retryDelay (Suc j)"
proof (cases "j < 5")
  case True
  then consider "j = 0" | "j = 1" | "j = 2" | "j = 3" | "j = 4" by linarith
  then show ?thesis
    unfolding nextDelay_funpow retryDelay_def by cases simp_all
next
  case False
  then have "(2::int) ^ 5 \<le> 2 ^ j" by (intro power_increasing) auto
  then have "min (1000000000 * 2 ^ j) (30000000000 :: int) = 30000000000" by simp
  with False show ?thesis
    unfolding nextDelay_funpow retryDelay_def by simp
qed

lemma stopReconnect_readLoop_text [simp]:
  "stopReconnect (readLoop_text J data n) = stopReconnect n"
  by (simp add: readLoop_text_def readLoop_deliver_def readLoop_welcome_def split: sum.splits)

lemma stopReconnect_readLoop [simp]:
  "stopReconnect (readLoop J fs quiet n) = stopReconnect n"
  by (induction J fs quiet n rule: readLoop.induct) simp_all

lemma connectLoop_from_failures:
  "\<not> stopReconnect n \<Longrightarrow>
   fst (connectLoop_from J (replicate m DialFails) d n) = map (\<lambda>j. (nextDelay ^^ j) d) [0..<m]"
proof (induction m arbitrary: d n)
  case 0
  show ?case by simp
next
  case (Suc m)
  let ?n1 = "n\<lparr>netlog := netlog n @ [LogConnecting, LogDialError]\<rparr>"
  have "\<not> stopReconnect ?n1" using Suc.prems by simp
  from Suc.IH [OF this, of "nextDelay d"]
  have ih: "fst (connectLoop_from J (replicate m DialFails) (nextDelay d) ?n1)
      = map (\<lambda>j. (nextDelay ^^ j) (nextDelay d)) [0..<m]" .
  have "map (\<lambda>j. (nextDelay ^^ j) d) [0..<Suc m]
      = d # map (\<lambda>j. (nextDelay ^^ j) (nextDelay d)) [0..<m]"
    by (simp add: upt_conv_Cons map_Suc_upt [symmetric] funpow_swap1 del: upt_Suc)
  with ih Suc.prems show ?case
    by (simp add: case_prod_unfold del: upt_Suc)
qed

lemma connectLoop_from_append:
  assumes "\<not> stopReconnect n" "pre \<noteq> []" "last pre = DialSucceeds fs quiet"
  shows "\<exists>n'. \<not> stopReconnect n' \<and>
           (\<forall>rest. connectLoop_from J (pre @ rest) d n =
              (fst (connectLoop_from J pre d n) @ fst (connectLoop_from J rest reconnectInitial n'),
               snd (connectLoop_from J rest reconnectInitial n')))"
  using assms
proof (induction pre arbitrary: d n)
  case Nil
  then show ?case by simp
next
  case (Cons a pre)
  show ?case
  proof (cases "pre = []")
    case True
    with Cons.prems have a: "a = DialSucceeds fs quiet" by simp
    let ?n3 = "(readLoop J fs quiet
                 (n\<lparr>connected := True, playerID := [], playerColor := \<lparr>R = 0, G = 0, B = 0\<rparr>,
                    netlog := netlog n @ [LogConnecting, LogConnected]\<rparr>))\<lparr>connected := False\<rparr>"
    have "\<not> stopReconnect ?n3" using Cons.prems(1) by simp
    then show ?thesis
      using True a Cons.prems(1) by (intro exI [of _ ?n3]) simp
  next
    case False
    with Cons.prems have l: "last pre = DialSucceeds fs quiet" by simp
    show ?thesis
    proof (cases a)
      case DialFails
      let ?n1 = "n\<lparr>netlog := netlog n @ [LogConnecting, LogDialError]\<rparr>"
      have "\<not> stopReconnect ?n1" using Cons.prems(1) by simp
      from Cons.IH [OF this False l, of "nextDelay d"] obtain n' where n':
        "\<not> stopReconnect n'"
        "\<forall>rest. connectLoop_from J (pre @ rest) (nextDelay d) ?n1 =
              (fst (connectLoop_from J pre (nextDelay d) ?n1) @ fst (connectLoop_from J rest reconnectInitial n'),
               snd (connectLoop_from J rest reconnectInitial n'))"
        by blast
      show ?thesis
        using DialFails Cons.prems(1) n'
        by (intro exI [of _ n']) (simp add: case_prod_unfold)
    next
      case (DialSucceeds fs' quiet')
      let ?n3 = "(readLoop J fs' quiet'
                 (n\<lparr>connected := True, playerID := [], playerColor := \<lparr>R = 0, G = 0, B = 0\<rparr>,
                    netlog := netlog n @ [LogConnecting, LogConnected]\<rparr>))\<lparr>connected := False\<rparr>"
      have "\<not> stopReconnect ?n3" using Cons.prems(1) by simp
      from Cons.IH [OF this False l, of reconnectInitial] obtain n' where n':
        "\<not> stopReconnect n'"
        "\<forall>rest. connectLoop_from J (pre @ rest) reconnectInitial ?n3 =
              (fst (connectLoop_from J pre reconnectInitial ?n3) @ fst (connectLoop_from J rest reconnectInitial n'),
               snd (connectLoop_from J rest reconnectInitial n'))"
        by blast
      show ?thesis
        using DialSucceeds Cons.prems(1) n'
        by (intro exI [of _ n']) simp
    qed
  qed
qed

text \<open>
  C5. Let the loop run, not stopped, through any attempts that are none at all or end in
  a successful connect, and then through \<open>m\<close> failing dials in a row. The delays it
  sleeps before the retries of that row are, in order, \<open>retryDelay 1\<close>, ...,
  \<open>retryDelay m\<close>, that is \<open>min (1s * 2 ^ (k - 1)) 30s\<close> for the k-th: 1s, 2s, 4s, 8s,
  16s, 30s, 30s, ... In particular the first delay after a successful connect is 1s
  again. The doubling never leaves the range of \<^verbatim>\<open>int64\<close>: the delays are read as
  signed values.
\<close>

theorem reconnect_backoff:
  assumes "\<not> stopReconnect n"
    and "pre = [] \<or> (\<exists>fs quiet. last pre = DialSucceeds fs quiet)"
  shows "map sint (fst (connectLoop J (pre @ replicate m DialFails) n))
       = map sint (fst (connectLoop J pre n)) @ map retryDelay [1..<Suc m]"
proof -
  have sched: "map sint (map (\<lambda>j. (nextDelay ^^ j) reconnectInitial) [0..<m]) = map retryDelay [1..<Suc m]"
    by (simp add: sint_nextDelay_funpow map_Suc_upt [symmetric] del: upt_Suc)
  show ?thesis
  proof (cases "pre = []")
    case True
    then show ?thesis
      using connectLoop_from_failures [OF assms(1), of J m reconnectInitial] sched
      by (simp add: connectLoop_def del: upt_Suc)
  next
    case False
    with assms(2) obtain fs quiet where l: "last pre = DialSucceeds fs quiet" by blast
    from connectLoop_from_append [OF assms(1) False l, of J reconnectInitial] obtain n' where n':
      "\<not> stopReconnect n'"
      "\<forall>rest. connectLoop_from J (pre @ rest) reconnectInitial n =
              (fst (connectLoop_from J pre reconnectInitial n) @ fst (connectLoop_from J rest reconnectInitial n'),
               snd (connectLoop_from J rest reconnectInitial n'))"
      by blast
    show ?thesis
      using n'(2) connectLoop_from_failures [OF n'(1), of J m reconnectInitial] sched
      by (simp add: connectLoop_def del: upt_Suc)
  qed
qed

theorem reconnect_backoff_witness:
  "map sint (fst (connectLoop sample_json
        ([DialFails, DialFails, DialSucceeds [] True] @ replicate 7 DialFails) newNetwork))
     = [1000000000, 2000000000] @
       [1000000000, 2000000000, 4000000000, 8000000000, 16000000000, 30000000000, 30000000000]"
proof -
  have a: "\<not> stopReconnect newNetwork" by (simp add: newNetwork_def)
  have b: "[DialFails, DialFails, DialSucceeds [] True] = [] \<or>
     (\<exists>fs quiet. last [DialFails, DialFails, DialSucceeds [] True] = DialSucceeds fs quiet)"
    by auto
  have c: "map sint (fst (connectLoop sample_json [DialFails, DialFails, DialSucceeds [] True] newNetwork))
      = [1000000000, 2000000000]"
    by (simp add: connectLoop_def newNetwork_def reconnectInitial_def Second_def
        nextDelay_def reconnectMax_def word_sless_alt Let_def)
  have d: "map retryDelay [1..<Suc 7] =
       [1000000000, 2000000000, 4000000000, 8000000000, 16000000000, 30000000000, 30000000000]"
    by (simp add: retryDelay_def upt_conv_Cons)
  show ?thesis
    using reconnect_backoff [OF a b, of sample_json 7] unfolding c d .
qed

section \<open>Client transport: full inbound queue\<close>

text \<open>
  C8. When the inbound queue already holds 256 envelopes and a text frame arrives that
  parses as an envelope, the select takes its default branch: the queue is left exactly
  as it was (so it is the new envelope that is lost), the line
  "message channel full, dropping message" is logged last, and the loop goes on to the
  next read; the model of the select has no blocking outcome.
\<close>

theorem inbound_queue_full_drops_newest:
  assumes "messagesBufferSize \<le> length (messages n)"
    and "json_Unmarshal_Envelope J data = Inr env"
  shows "readLoop_deliver env n = n\<lparr>netlog := netlog n @ [LogChannelFull]\<rparr>
       \<and> messages (readLoop_text J data n) = messages n
       \<and> netlog (readLoop_text J data n) = netlog (readLoop_welcome J env n) @ [LogChannelFull]
       \<and> readLoop J (TextMessage data # fs) quiet n = readLoop J fs quiet (readLoop_text J data n)"
proof -
  have m: "messages (readLoop_welcome J env n) = messages n"
    by (simp add: readLoop_welcome_def split: sum.splits)
  show ?thesis
    using assms m by (simp add: readLoop_text_def readLoop_deliver_def)
qed

theorem inbound_queue_full_drops_newest_witness:
  "messages (readLoop_text sample_json ''state:late''
       (newNetwork\<lparr>messages := replicate 256 \<lparr>Type = ''state'', Data = ''ab''\<rparr>\<rparr>))
     = replicate 256 \<lparr>Type = ''state'', Data = ''ab''\<rparr>
   \<and> netlog (readLoop_text sample_json ''state:late''
       (newNetwork\<lparr>messages := replicate 256 \<lparr>Type = ''state'', Data = ''ab''\<rparr>\<rparr>))
     = [LogChannelFull]"
proof -
  let ?n = "newNetwork\<lparr>messages := replicate 256 \<lparr>Type = ''state'', Data = ''ab''\<rparr>\<rparr>"
  have a: "messagesBufferSize \<le> length (messages ?n)"
    by (simp add: messagesBufferSize_def)
  have b: "json_Unmarshal_Envelope sample_json ''state:late'' = Inr \<lparr>Type = ''state'', Data = ''late''\<rparr>"
    by (simp add: sample_json_def)
  have c: "netlog (readLoop_welcome sample_json \<lparr>Type = ''state'', Data = ''late''\<rparr> ?n) = []"
    by (simp add: readLoop_welcome_def MsgWelcome_def newNetwork_def)
  from inbound_queue_full_drops_newest [OF a b] c show ?thesis by simp
qed

section \<open>Client game: a State envelope replaces the player map\<close>

lemma collectPlayers_map_of:
  "collectPlayers ps m0 = m0 ++ map_of (rev (map (\<lambda>p. (pi_ID p, p)) ps))"
  by (induction ps arbitrary: m0) simp_all

text \<open>
  C9. Processing a State envelope whose payload parses replaces the local player map by
  the map built from the payload's list alone, whatever the map held before: its keys
  are exactly the ids in the list, every value is an element of the list stored under
  its own id, an id that is not in the list is absent afterwards (also when the game
  knew it before and never saw a Leave for it), and when the ids in the list are
  pairwise distinct every element of the list is in the map.
\<close>

theorem state_replaces_players:
  assumes "Type env = MsgState" "json_Unmarshal_State J (Data env) = Inr st"
  shows "players (processMessage J env g) = map_of (rev (map (\<lambda>p. (pi_ID p, p)) (s_Players st)))
       \<and> dom (players (processMessage J env g)) = pi_ID ` set (s_Players st)
       \<and> (\<forall>k p. players (processMessage J env g) k = Some p \<longrightarrow> p \<in> set (s_Players st) \<and> pi_ID p = k)
       \<and> (\<forall>k. k \<notin> pi_ID ` set (s_Players st) \<longrightarrow> players (processMessage J env g) k = None)
       \<and> (distinct (map pi_ID (s_Players st)) \<longrightarrow>
            (\<forall>p\<in>set (s_Players st). players (processMessage J env g) (pi_ID p) = Some p))"
proof -
  let ?kv = "rev (map (\<lambda>p. (pi_ID p, p)) (s_Players st))"
  have p: "players (processMessage J env g) = map_of ?kv"
    using assms
    by (simp add: processMessage_def Let_def collectPlayers_map_of split: option.splits)
  have d: "dom (map_of ?kv) = pi_ID ` set (s_Players st)"
    by (simp add: dom_map_of_conv_image_fst image_image)
  have v: "\<forall>k p. map_of ?kv k = Some p \<longrightarrow> p \<in> set (s_Players st) \<and> pi_ID p = k"
    by (auto dest!: map_of_SomeD)
  have n: "\<forall>k. k \<notin> pi_ID ` set (s_Players st) \<longrightarrow> map_of ?kv k = None"
    by (simp add: map_of_eq_None_iff image_image)
  have u: "distinct (map pi_ID (s_Players st)) \<longrightarrow>
            (\<forall>p\<in>set (s_Players st). map_of ?kv (pi_ID p) = Some p)"
  proof (intro impI ballI)
    fix p assume dist: "distinct (map pi_ID (s_Players st))" and "p \<in> set (s_Players st)"
    then have "(pi_ID p, p) \<in> set ?kv" by auto
    moreover have "distinct (map fst ?kv)"
      using dist by (simp add: rev_map [symmetric] o_def)
    ultimately show "map_of ?kv (pi_ID p) = Some p" by (rule map_of_is_SomeI [rotated])
  qed
  show ?thesis unfolding p by (intro conjI refl d v n u)
qed

theorem state_replaces_players_witness:
  "dom (players (processMessage sample_json \<lparr>Type = ''state'', Data = ''ab''\<rparr> sample_game))
     = {''a'', ''b''}
   \<and> players sample_game ''z'' \<noteq> None
   \<and> players (processMessage sample_json \<lparr>Type = ''state'', Data = ''ab''\<rparr> sample_game) ''z'' = None
   \<and> players (processMessage sample_json \<lparr>Type = ''state'', Data = ''ab''\<rparr> sample_game) ''b''
       = Some \<lparr>pi_ID = ''b'', pi_X = 0, pi_Y = 0, pi_Color = \<lparr>R = 0, G = 0, B = 0\<rparr>\<rparr>"
proof -
  let ?env = "\<lparr>Type = ''state'', Data = ''ab''\<rparr>"
  let ?st = "\<lparr>s_Players =
      map (\<lambda>c. \<lparr>pi_ID = [c], pi_X = 0, pi_Y = 0, pi_Color = \<lparr>R = 0, G = 0, B = 0\<rparr>\<rparr>) ''ab''\<rparr>"
  have a: "Type ?env = MsgState" by (simp add: MsgState_def)
  have b: "json_Unmarshal_State sample_json (Data ?env) = Inr ?st"
    by (simp add: sample_json_def)
  have z: "players sample_game ''z'' \<noteq> None" by (simp add: sample_game_def)
  from state_replaces_players [OF a b, of sample_game] z show ?thesis by auto
qed

end
